theory Spec2Isabelle
  imports
    Main
    "HOL-Library.Char_ord"
    "HOL-Library.List_Lexorder"
    "HOL-Library.Multiset"
    "HOL-Library.Log_Nat"
begin

section \<open>Python values used by \<open>ats_logic.py\<close>\<close>

subsection \<open>Strings\<close>

text \<open>
  A Python \<open>str\<close> is a sequence of code points. The model covers the strings whose code
  points are below 256: a \<^typ>\<open>char\<close> stands for the code point of the same number
  (\<^term>\<open>of_char c :: nat\<close>). On that range \<open>str.isspace\<close> and the class \<open>\s\<close> of
  \<open>re\<close> (for a \<open>str\<close> pattern) hold of the same twelve code points, and \<open>str.lower\<close>
  maps every code point to one code point: the letters A to Z and U+00C0 to U+00DE
  (U+00D7, the multiplication sign, apart) move up by 32, everything else stays.
\<close>

definition isspace :: "char \<Rightarrow> bool" where
  "isspace c = (of_char c \<in> {9, 10, 11, 12, 13, 28, 29, 30, 31, 32, 133, 160 :: nat})"

definition lower_char :: "char \<Rightarrow> char" where
  "lower_char c =
     (let n = of_char c :: nat
      in if (65 \<le> n \<and> n \<le> 90) \<or> (192 \<le> n \<and> n \<le> 222 \<and> n \<noteq> 215)
         then char_of (n + 32) else c)"

text \<open>\<open>s.strip()\<close>: whitespace is dropped at both ends.\<close>

definition strip :: "string \<Rightarrow> string" where
  "strip s = rev (dropWhile isspace (rev (dropWhile isspace s)))"

text \<open>\<open>s.lower()\<close>.\<close>

definition lower :: "string \<Rightarrow> string" where
  "lower s = map lower_char s"

text \<open>
  \<open>re.sub(r'\s+', ' ', s)\<close>: scanning from the left, every maximal run of whitespace
  (the quantifier is greedy) is replaced by one space.
\<close>

function re_sub_ws :: "string \<Rightarrow> string" where
  "re_sub_ws [] = []"
| "re_sub_ws (c # cs) =
     (if isspace c then CHR '' '' # re_sub_ws (dropWhile isspace cs)
      else c # re_sub_ws cs)"
  by pat_completeness auto
termination
  by (relation "measure length") (auto simp: less_Suc_eq_le length_dropWhile_le)

text \<open>\<open>sub in s\<close>, \<open>s.startswith(p)\<close> and \<open>s.replace(' ', new)\<close>.\<close>

fun str_contains :: "string \<Rightarrow> string \<Rightarrow> bool" where
  "str_contains sub [] = (sub = [])"
| "str_contains sub (c # cs) = (take (length sub) (c # cs) = sub \<or> str_contains sub cs)"

definition startswith :: "string \<Rightarrow> string \<Rightarrow> bool" where
  "startswith s p = (take (length p) s = p)"

definition replace_space :: "string \<Rightarrow> string \<Rightarrow> string" where
  "replace_space new s = concat (map (\<lambda>c. if c = CHR '' '' then new else [c]) s)"

subsection \<open>Exceptions and numbers\<close>

datatype py_exception = ZeroDivisionError | RequestException | ParserError | ValueError

text \<open>
  A Python \<open>float\<close> is an IEEE 754 binary64 number; \<open>PyFloat q\<close> carries the exact
  rational value \<open>q\<close> of a finite one. \<open>fl q\<close> is the binary64 number nearest to the
  rational \<open>q\<close>, ties going to the even significand (53 bits). The exponent range is
  left out: the matcher only forms quotients of two list lengths, so all its values
  lie between \<open>2 ^ - 63\<close> and \<open>100\<close>, or are zero.
\<close>

datatype py_number = PyInt int | PyFloat rat

definition round_half_even :: "rat \<Rightarrow> int" where
  "round_half_even q =
     (let f = \<lfloor>q\<rfloor>; d = q - of_int f
      in if d < 1 / 2 then f else if 1 / 2 < d then f + 1
         else if even f then f else f + 1)"

definition pow2 :: "int \<Rightarrow> rat" where
  "pow2 e = (if 0 \<le> e then 2 ^ nat e else 1 / 2 ^ nat (- e))"

text \<open>\<open>\<lfloor>log\<^sub>2 q\<rfloor>\<close> for a positive rational, from the bit lengths of numerator and denominator.\<close>

definition floor_log2 :: "rat \<Rightarrow> int" where
  "floor_log2 q =
     (let (a, b) = quotient_of q;
          k = bitlen a - bitlen b
      in if pow2 k \<le> q then k else k - 1)"

definition fl :: "rat \<Rightarrow> rat" where
  "fl q =
     (if q = 0 then 0
      else let e = floor_log2 \<bar>q\<bar> - 52
           in sgn q * of_int (round_half_even (\<bar>q\<bar> / pow2 e)) * pow2 e)"

text \<open>
  \<open>a / b\<close> on two non-negative \<open>int\<close>s: true division, correctly rounded, raising
  \<open>ZeroDivisionError\<close> when \<open>b\<close> is zero.
\<close>

definition py_truediv :: "nat \<Rightarrow> nat \<Rightarrow> py_exception + rat" where
  "py_truediv a b =
     (if b = 0 then Inl ZeroDivisionError else Inr (fl (of_nat a / of_nat b)))"

text \<open>\<open>x * n\<close> for a float \<open>x\<close> and a small \<open>int\<close> \<open>n\<close> (exactly a float).\<close>

definition py_float_mul :: "rat \<Rightarrow> int \<Rightarrow> rat" where
  "py_float_mul x n = fl (x * of_int n)"

text \<open>
  \<open>round(x, ndigits)\<close> on a float: the exact value of \<open>x\<close> is rounded to \<open>ndigits\<close>
  decimal places, ties to the even digit, and the decimal is read back as a float.
\<close>

definition py_round :: "rat \<Rightarrow> nat \<Rightarrow> rat" where
  "py_round x ndigits = fl (of_int (round_half_even (x * 10 ^ ndigits)) / 10 ^ ndigits)"

text \<open>The value of a number, as \<open>==\<close> compares an \<open>int\<close> with a \<open>float\<close>.\<close>

fun num_value :: "py_number \<Rightarrow> rat" where
  "num_value (PyInt i) = of_int i"
| "num_value (PyFloat q) = q"

section \<open>Skill matching logic\<close>

text \<open>
  \<^verbatim>\<open>
  def normalize_skill(s: str) -> str:
      return re.sub(r'\s+', ' ', s.strip().lower())
  \<close>
\<close>

definition normalize_skill :: "string \<Rightarrow> string" where
  "normalize_skill s = re_sub_ws (lower (strip s))"

text \<open>The dictionary returned by \<open>match_skills\<close>.\<close>

record match_result =
  score_percentage :: py_number
  matched_skills :: "string list"
  missing_skills :: "string list"
  total_skills_count :: nat
  matched_count :: nat

text \<open>\<open>s.discard(x)\<close> on a Python set.\<close>

definition discard :: "'a \<Rightarrow> 'a set \<Rightarrow> 'a set" where
  "discard x A = A - {x}"

text \<open>
  \<open>round((match_count / total) * 100, 1) if total > 0 else 0\<close>: the division is only
  evaluated under the guard, and an exception it raised would leave the function.
\<close>

definition percent_of :: "nat \<Rightarrow> nat \<Rightarrow> py_exception + py_number" where
  "percent_of match_count total_count =
     (if total_count > 0
      then (case py_truediv match_count total_count of
              Inl e \<Rightarrow> Inl e
            | Inr q \<Rightarrow> Inr (PyFloat (py_round (py_float_mul q 100) 1)))
      else Inr (PyInt 0))"

text \<open>
  \<open>match_skills\<close>, statement by statement. \<open>sorted\<close> orders \<open>str\<close>s by code point,
  lexicographically, which is the order of \<^typ>\<open>string\<close> here.
\<close>

definition match_skills :: "string list \<Rightarrow> string list \<Rightarrow> py_exception + match_result" where
  "match_skills resume_skills jd_skills =
     (let res_norm = normalize_skill ` set resume_skills;
          jd_norm = normalize_skill ` set jd_skills;
          res_norm = discard ''null'' res_norm;
          jd_norm = discard ''null'' jd_norm;
          matched_norm = jd_norm \<inter> res_norm;
          missing_norm = jd_norm - res_norm;
          matched_original = filter (\<lambda>skill. normalize_skill skill \<in> matched_norm) jd_skills;
          missing_original = filter (\<lambda>skill. normalize_skill skill \<in> missing_norm) jd_skills;
          total_count = card jd_norm;
          match_count = card matched_norm
      in case percent_of match_count total_count of
           Inl e \<Rightarrow> Inl e
         | Inr percent \<Rightarrow>
             Inr \<lparr>score_percentage = percent,
                  matched_skills = sort matched_original,
                  missing_skills = sort missing_original,
                  total_skills_count = total_count,
                  matched_count = match_count\<rparr>)"

text \<open>
  The sets of the specification's matching algorithm, in its words: every entry of a
  sequence is normalized and collected into a set, the sentinel \<open>null\<close> is removed, and
  \<open>matchedSet = requiredSet \<inter> resumeSet\<close>, \<open>missingSet = requiredSet - resumeSet\<close>.
\<close>

definition requiredSet :: "string list \<Rightarrow> string set" where
  "requiredSet requiredSkills = normalize_skill ` set requiredSkills - {''null''}"

definition resumeSet :: "string list \<Rightarrow> string set" where
  "resumeSet resumeSkills = normalize_skill ` set resumeSkills - {''null''}"

definition matchedSet :: "string list \<Rightarrow> string list \<Rightarrow> string set" where
  "matchedSet resumeSkills requiredSkills = requiredSet requiredSkills \<inter> resumeSet resumeSkills"

definition missingSet :: "string list \<Rightarrow> string list \<Rightarrow> string set" where
  "missingSet resumeSkills requiredSkills = requiredSet requiredSkills - resumeSet resumeSkills"

text \<open>Predicates in which the properties of a normalized string are stated.\<close>

definition trimmed :: "string \<Rightarrow> bool" where
  "trimmed t = (t = [] \<or> (\<not> isspace (hd t) \<and> \<not> isspace (last t)))"

fun no_double_ws :: "string \<Rightarrow> bool" where
  "no_double_ws (a # b # cs) = (\<not> (isspace a \<and> isspace b) \<and> no_double_ws (b # cs))"
| "no_double_ws cs = True"

text \<open>
  The specification's reading of the normalizer, in its words: the input is cut into
  its maximal blocks of non-whitespace characters (\<open>s.split()\<close>), each is lower-cased,
  and the blocks are joined by single spaces (\<open>' '.join\<close>).
\<close>

function py_split :: "string \<Rightarrow> string list" where
  "py_split s =
     (case dropWhile isspace s of
        [] \<Rightarrow> []
      | c # cs \<Rightarrow>
          (c # takeWhile (\<lambda>x. \<not> isspace x) cs) # py_split (dropWhile (\<lambda>x. \<not> isspace x) cs))"
  by pat_completeness auto
termination
proof (relation "measure length")
  fix s :: string and c cs
  assume "dropWhile isspace s = c # cs"
  then have "length (c # cs) \<le> length s"
    using length_dropWhile_le[of isspace s] by simp
  moreover have "length (dropWhile (\<lambda>x. \<not> isspace x) cs) \<le> length cs"
    by (rule length_dropWhile_le)
  ultimately show "(dropWhile (\<lambda>x. \<not> isspace x) cs, s) \<in> measure length" by simp
qed simp

fun join_space :: "string list \<Rightarrow> string" where
  "join_space [] = []"
| "join_space [w] = w"
| "join_space (w # v # ws) = w @ CHR '' '' # join_space (v # ws)"

declare py_split.simps [simp del]

section \<open>Course scraping logic\<close>

text \<open>
  What the scraper sees of the outside world. A \<open>requests.Response\<close> is read through
  \<open>status_code\<close> and \<open>text\<close>; a \<open>bs4\<close> tag through \<open>get_text(strip=True)\<close> and
  \<open>get("href", "")\<close>, where the attribute may be absent. A recommendation is the
  dictionary \<open>{"title": ..., "link": ...}\<close>.
\<close>

record response =
  status_code :: int
  resp_text :: string

record tag =
  get_text :: string
  href :: "string option"

record recommendation =
  title :: string
  link :: string

text \<open>
  The libraries and the network are parameters of the model, and each of them may
  raise:
  \<^item> \<open>random_choice n\<close> is the index that \<open>random.choice\<close> draws at the \<open>n\<close>-th request;
  \<^item> \<open>requests_get history url user_agent\<close> is \<open>requests.get(url, headers, timeout=5)\<close>,
    which may depend on every request sent before;
  \<^item> \<open>select_result_a text\<close> is \<open>BeautifulSoup(text, "html.parser").select("a.result__a")\<close>
    and \<open>select_search_card text\<close> the same with the selector of the course catalog;
  \<^item> \<open>uddg_of link\<close> is
    \<open>urllib.parse.parse_qs(urllib.parse.urlparse(link).query).get("uddg", [""])[0]\<close>
    (\<open>urlparse\<close> raises \<open>ValueError\<close> on a malformed host, for one).
\<close>

record env =
  random_choice :: "nat \<Rightarrow> nat"
  requests_get :: "(string \<times> string) list \<Rightarrow> string \<Rightarrow> string \<Rightarrow> py_exception + response"
  select_result_a :: "string \<Rightarrow> py_exception + tag list"
  select_search_card :: "string \<Rightarrow> py_exception + tag list"
  uddg_of :: "string \<Rightarrow> py_exception + string"

text \<open>
  The effects: the requests sent so far, each with its URL and user agent, and the
  seconds slept.
\<close>

record world =
  sent :: "(string \<times> string) list"
  slept :: nat

definition USER_AGENTS :: "string list" where
  "USER_AGENTS =
     [''Mozilla/5.0 (Windows NT 10.0; Win64; x64)'',
      ''Mozilla/5.0 (Macintosh; Intel Mac OS X 10_15_7)'']"

text \<open>
  \<^verbatim>\<open>
  def _safe_request(url):
      headers = {"User-Agent": random.choice(USER_AGENTS)}
      try:
          return requests.get(url, headers=headers, timeout=5)
      except:
          return None
  \<close>
\<close>

definition user_agent :: "env \<Rightarrow> world \<Rightarrow> string" where
  "user_agent env w = USER_AGENTS ! (random_choice env (length (sent w)) mod length USER_AGENTS)"

definition safe_request :: "env \<Rightarrow> world \<Rightarrow> string \<Rightarrow> response option \<times> world" where
  "safe_request env w url =
     (let ua = user_agent env w;
          w' = w\<lparr>sent := sent w @ [(url, ua)]\<rparr>
      in case requests_get env (sent w) url ua of
           Inl e \<Rightarrow> (None, w')
         | Inr r \<Rightarrow> (Some r, w'))"

text \<open>The two URLs that \<open>fetch_courses_for_skills\<close> builds for a skill.\<close>

definition ddg_url :: "string \<Rightarrow> string" where
  "ddg_url skill =
     replace_space ''+'' (''https://duckduckgo.com/html/?q='' @ (''top online courses for '' @ skill))"

definition coursera_url :: "string \<Rightarrow> string" where
  "coursera_url skill = ''https://www.coursera.org/search?query='' @ replace_space ''%20'' skill"

text \<open>
  The loop over the first two search results. An exception (from unwrapping a link)
  leaves the loop and the \<open>try\<close> block; what was appended to \<open>skill_recs\<close> before stays.
\<close>

fun ddg_results ::
  "env \<Rightarrow> tag list \<Rightarrow> recommendation list \<Rightarrow> recommendation list \<times> py_exception option" where
  "ddg_results env [] skill_recs = (skill_recs, None)"
| "ddg_results env (t # ts) skill_recs =
     (let title = get_text t;
          link = (case href t of None \<Rightarrow> [] | Some h \<Rightarrow> h)
      in case (if str_contains ''uddg='' link then uddg_of env link else Inr link) of
           Inl e \<Rightarrow> (skill_recs, Some e)
         | Inr link \<Rightarrow>
             ddg_results env ts
               (if startswith link ''http''
                then skill_recs @ [\<lparr>title = title, link = link\<rparr>]
                else skill_recs))"

text \<open>
  The first \<open>try\<close> block, with its \<open>except: pass\<close>. The test \<open>if resp and
  resp.status_code == 200\<close> is the test of the status code once \<open>resp\<close> is not \<open>None\<close>:
  a \<open>requests.Response\<close> is truthy when its status is below 400.
\<close>

definition duckduckgo_scrape ::
  "env \<Rightarrow> world \<Rightarrow> string \<Rightarrow> recommendation list \<Rightarrow> recommendation list \<times> world" where
  "duckduckgo_scrape env w skill skill_recs =
     (let url = ddg_url skill;
          (resp, w) = safe_request env w url
      in case resp of
           None \<Rightarrow> (skill_recs, w)
         | Some r \<Rightarrow>
             if status_code r = 200
             then (case select_result_a env (resp_text r) of
                     Inl e \<Rightarrow> (skill_recs, w)
                   | Inr tags \<Rightarrow> (fst (ddg_results env (take 2 tags) skill_recs), w))
             else (skill_recs, w))"

text \<open>The loop over the first course card, and the second \<open>try\<close> block.\<close>

fun coursera_results :: "tag list \<Rightarrow> recommendation list \<Rightarrow> recommendation list" where
  "coursera_results [] skill_recs = skill_recs"
| "coursera_results (a # rest) skill_recs =
     coursera_results rest
       (skill_recs @
        [\<lparr>title = get_text a,
          link = ''https://www.coursera.org'' @ (case href a of None \<Rightarrow> [] | Some h \<Rightarrow> h)\<rparr>])"

definition coursera_scrape ::
  "env \<Rightarrow> world \<Rightarrow> string \<Rightarrow> recommendation list \<Rightarrow> recommendation list \<times> world" where
  "coursera_scrape env w skill skill_recs =
     (let url = coursera_url skill;
          (resp, w) = safe_request env w url
      in case resp of
           None \<Rightarrow> (skill_recs, w)
         | Some r \<Rightarrow>
             if status_code r = 200
             then (case select_search_card env (resp_text r) of
                     Inl e \<Rightarrow> (skill_recs, w)
                   | Inr tags \<Rightarrow> (coursera_results (take 1 tags) skill_recs, w))
             else (skill_recs, w))"

text \<open>
  The body of the loop over the skills, on the dictionary and the world. Every
  statement that can raise on a list of strings stands in one of the two \<open>try\<close>
  blocks, whose bare \<open>except\<close> catches everything, so the body and the function
  return a value and no exception.
\<close>

definition fetch_skill ::
  "env \<Rightarrow> (string \<rightharpoonup> recommendation list) \<times> world \<Rightarrow> string \<Rightarrow>
   (string \<rightharpoonup> recommendation list) \<times> world" where
  "fetch_skill env st skill =
     (let (recommendations, w) = st;
          skill_recs = [];
          (skill_recs, w) = duckduckgo_scrape env w skill skill_recs;
          (skill_recs, w) =
            (if length skill_recs < 2 then coursera_scrape env w skill skill_recs
             else (skill_recs, w))
      in (recommendations(skill \<mapsto> skill_recs), w\<lparr>slept := slept w + 1\<rparr>))"

definition fetch_courses_for_skills ::
  "env \<Rightarrow> world \<Rightarrow> string list \<Rightarrow> (string \<rightharpoonup> recommendation list) \<times> world" where
  "fetch_courses_for_skills env w skills =
     (let recommendations = Map.empty;
          skills_to_search = take 3 skills
      in foldl (fetch_skill env) (recommendations, w) skills_to_search)"

text \<open>
  Worlds used as examples: the initial state; a network that is down; a search page
  whose second result link is one that \<open>urlparse\<close> rejects (an unmatched bracket in the
  host), with the course catalog down; and a network where the search engine has two
  results for Go and none for anything else, and the catalog two cards for every query.
\<close>

definition w0 :: world where
  "w0 = \<lparr>sent = [], slept = 0\<rparr>"

definition env_down :: env where
  "env_down =
     \<lparr>random_choice = (\<lambda>n. 0),
      requests_get = (\<lambda>history url ua. Inl RequestException),
      select_result_a = (\<lambda>text. Inr []),
      select_search_card = (\<lambda>text. Inr []),
      uddg_of = (\<lambda>l. Inr l)\<rparr>"

definition env_broken_link :: env where
  "env_broken_link =
     \<lparr>random_choice = (\<lambda>n. n),
      requests_get = (\<lambda>history url ua.
        if startswith url ''https://duckduckgo.com/''
        then Inr \<lparr>status_code = 200, resp_text = ''<html>''\<rparr>
        else Inl RequestException),
      select_result_a = (\<lambda>text.
        Inr [\<lparr>get_text = ''Learn Go'', href = Some ''https://go.dev/learn/''\<rparr>,
             \<lparr>get_text = ''Go course'', href = Some ''http://[go?uddg=x''\<rparr>]),
      select_search_card = (\<lambda>text. Inr []),
      uddg_of = (\<lambda>l. if l = ''http://[go?uddg=x'' then Inl ValueError else Inr l)\<rparr>"

definition env_demo :: env where
  "env_demo =
     \<lparr>random_choice = (\<lambda>n. n),
      requests_get = (\<lambda>history url ua. Inr \<lparr>status_code = 200, resp_text = url\<rparr>),
      select_result_a = (\<lambda>text.
        if text = ddg_url ''Go''
        then Inr [\<lparr>get_text = ''Learn Go'', href = Some ''https://go.dev/learn/''\<rparr>,
                  \<lparr>get_text = ''Go by Example'', href = Some ''https://gobyexample.com/''\<rparr>,
                  \<lparr>get_text = ''A Tour of Go'', href = Some ''https://go.dev/tour/''\<rparr>]
        else Inr []),
      select_search_card = (\<lambda>text.
        Inr [\<lparr>get_text = ''Course one'', href = Some ''/learn/one''\<rparr>,
             \<lparr>get_text = ''Course two'', href = Some ''/learn/two''\<rparr>]),
      uddg_of = (\<lambda>l. Inr l)\<rparr>"

section \<open>Evaluating the float model\<close>

text \<open>
  \<open>floor_log2\<close> is the binary exponent, so \<open>fl q\<close> is determined by bounds on \<open>q\<close>
  that numerals decide: \<open>fl_eqI\<close> evaluates \<open>fl\<close> at a given rational.
\<close>

lemma pow2_powi: "pow2 e = 2 powi e"
  by (simp add: pow2_def power_int_def inverse_eq_divide power_one_over)

lemma pow2_pos [simp]: "0 < pow2 e"
  by (simp add: pow2_def)

lemma pow2_add: "pow2 (i + j) = pow2 i * pow2 j"
  by (simp add: pow2_powi power_int_add)

lemma pow2_less: "i < j \<Longrightarrow> pow2 i < pow2 j"
  by (simp add: pow2_powi power_int_strict_increasing)

lemma pow2_le: "i \<le> j \<Longrightarrow> pow2 i \<le> pow2 j"
  by (simp add: pow2_powi power_int_increasing)

lemma bitlen_pow2_bounds:
  assumes "0 < a"
  shows "pow2 (bitlen a - 1) \<le> of_int a" and "of_int a < pow2 (bitlen a)"
proof -
  from bitlen_bounds[OF assms]
  have 1: "2 ^ nat (bitlen a - 1) \<le> a" and 2: "a < 2 ^ nat (bitlen a)" by simp_all
  have p: "0 < bitlen a" using assms bitlen_eq_zero_iff[of a] bitlen_nonneg[of a] by linarith
  have "(of_int (2 ^ nat (bitlen a - 1)) :: rat) \<le> of_int a" using 1 by (simp only: of_int_le_iff)
  then show "pow2 (bitlen a - 1) \<le> of_int a" using p by (simp add: pow2_def)
  have "(of_int a :: rat) < of_int (2 ^ nat (bitlen a))" using 2 by (simp only: of_int_less_iff)
  then show "of_int a < pow2 (bitlen a)" using p by (simp add: pow2_def)
qed

lemma floor_log2_bounds:
  assumes "0 < q"
  shows "pow2 (floor_log2 q) \<le> q \<and> q < pow2 (floor_log2 q + 1)"
proof -
  obtain a b where ab: "quotient_of q = (a, b)" by (cases "quotient_of q")
  then have b: "0 < b" by (rule quotient_of_denom_pos)
  from ab have q: "q = of_int a / of_int b" by (rule quotient_of_div)
  with assms b have a: "0 < a" by (simp add: zero_less_divide_iff)
  define k where "k = bitlen a - bitlen b"
  note A = bitlen_pow2_bounds[OF a] and B = bitlen_pow2_bounds[OF b]
  have bq: "(0::rat) < of_int b" using b by simp
  have up: "q < pow2 (k + 1)"
  proof -
    have "of_int a < pow2 (bitlen a)" by (rule A)
    also have "\<dots> = pow2 (k + 1) * pow2 (bitlen b - 1)"
      by (simp add: k_def flip: pow2_add)
    also have "\<dots> \<le> pow2 (k + 1) * of_int b"
      using B(1) by (simp add: mult_left_mono less_imp_le)
    finally show ?thesis using bq by (simp add: q pos_divide_less_eq)
  qed
  have lo: "pow2 (k - 1) \<le> q"
  proof -
    have "pow2 (k - 1) * of_int b \<le> pow2 (k - 1) * pow2 (bitlen b)"
      using B(2) by (simp add: mult_left_mono less_imp_le)
    also have "\<dots> = pow2 (bitlen a - 1)"
      by (simp add: k_def flip: pow2_add)
    also have "\<dots> \<le> of_int a" by (rule A)
    finally show ?thesis using bq by (simp add: q pos_le_divide_eq)
  qed
  have fl2: "floor_log2 q = (if pow2 k \<le> q then k else k - 1)"
    by (simp add: floor_log2_def ab k_def)
  show ?thesis
  proof (cases "pow2 k \<le> q")
    case True
    with up show ?thesis by (simp add: fl2)
  next
    case False
    with lo show ?thesis by (simp add: fl2)
  qed
qed

lemma floor_log2_eqI:
  assumes "pow2 e \<le> q" and "q < pow2 (e + 1)"
  shows "floor_log2 q = e"
proof -
  have "0 < q" using assms(1) pow2_pos[of e] by linarith
  from floor_log2_bounds[OF this]
  have 1: "pow2 (floor_log2 q) \<le> q" and 2: "q < pow2 (floor_log2 q + 1)" by simp_all
  show ?thesis
  proof (rule ccontr)
    assume "floor_log2 q \<noteq> e"
    then consider "floor_log2 q + 1 \<le> e" | "e + 1 \<le> floor_log2 q" by linarith
    then show False
    proof cases
      case 1
      from pow2_le[OF this] 2 assms(1) show False by linarith
    next
      case 2
      from pow2_le[OF this] 1 assms(2) show False by linarith
    qed
  qed
qed

lemma round_half_even_eqI:
  assumes "of_int m - 1 / 2 < q" and "q < of_int m + 1 / 2"
  shows "round_half_even q = m"
proof -
  have "\<lfloor>q\<rfloor> = m \<or> \<lfloor>q\<rfloor> = m - 1" using assms by linarith
  then show ?thesis
  proof
    assume f: "\<lfloor>q\<rfloor> = m"
    with assms show ?thesis by (simp add: round_half_even_def Let_def)
  next
    assume f: "\<lfloor>q\<rfloor> = m - 1"
    with assms show ?thesis by (simp add: round_half_even_def Let_def)
  qed
qed

lemma fl_eqI:
  assumes "pow2 (e + 52) \<le> q" and "q < pow2 (e + 53)"
    and "of_int m - 1 / 2 < q / pow2 e" and "q / pow2 e < of_int m + 1 / 2"
  shows "fl q = of_int m * pow2 e"
proof -
  have q: "0 < q" using assms(1) pow2_pos[of "e + 52"] by linarith
  have "floor_log2 q = e + 52"
    using assms(1,2) by (intro floor_log2_eqI) (simp_all add: add.assoc)
  moreover have "round_half_even (q / pow2 e) = m"
    using assms(3,4) by (rule round_half_even_eqI)
  ultimately show ?thesis using q by (simp add: fl_def)
qed

lemma fl_two_thirds: "fl (2 / 3) = 6004799503160661 / 9007199254740992"
  using fl_eqI[of "-53" "2 / 3" 6004799503160661] by (simp add: pow2_def)

lemma fl_two_thirds_100:
  "fl (6004799503160661 / 9007199254740992 * 100) = 2345624805922133 / 35184372088832"
  using fl_eqI[of "-46" "6004799503160661 / 9007199254740992 * 100" 4691249611844266]
  by (simp add: pow2_def)

lemma rhe_667: "round_half_even (2345624805922133 / 35184372088832 * 10) = 667"
  by (rule round_half_even_eqI) simp_all

lemma fl667: "fl (667 / 10) = 4693595236650189 / 70368744177664"
  using fl_eqI[of "-46" "667 / 10" 4693595236650189] by (simp add: pow2_def)


section \<open>Properties of the normalizer\<close>

lemma of_char_lower_char:
  "of_char (lower_char c) =
     (let n = of_char c :: nat
      in if (65 \<le> n \<and> n \<le> 90) \<or> (192 \<le> n \<and> n \<le> 222 \<and> n \<noteq> 215)
         then n + 32 else n)"
  by (simp add: lower_char_def Let_def)

lemma isspace_lower_char [simp]: "isspace (lower_char c) = isspace c"
  unfolding isspace_def of_char_lower_char by (simp add: Let_def)

lemma lower_char_idem [simp]: "lower_char (lower_char c) = lower_char c"
proof -
  have "of_char (lower_char (lower_char c)) = (of_char (lower_char c) :: nat)"
    unfolding of_char_lower_char by (simp add: Let_def)
  then show ?thesis by simp
qed

lemma lower_char_space [simp]: "lower_char CHR '' '' = CHR '' ''"
  by (simp add: lower_char_def)

lemma isspace_space [simp]: "isspace CHR '' ''"
  by (simp add: isspace_def)

lemma re_sub_ws_Nil_iff [simp]: "re_sub_ws x = [] \<longleftrightarrow> x = []"
  by (cases x) auto

lemma isspace_hd_re_sub_ws: "x \<noteq> [] \<Longrightarrow> isspace (hd (re_sub_ws x)) = isspace (hd x)"
  by (cases x) auto

lemma dropWhile_re_sub_ws:
  "x \<noteq> [] \<Longrightarrow> \<not> isspace (hd x) \<Longrightarrow> dropWhile isspace (re_sub_ws x) = re_sub_ws x"
  by (cases x) auto

lemma re_sub_ws_idem: "re_sub_ws (re_sub_ws x) = re_sub_ws x"
proof (induction x rule: re_sub_ws.induct)
  case 1
  show ?case by simp
next
  case (2 c cs)
  show ?case
  proof (cases "isspace c")
    case True
    let ?d = "dropWhile isspace cs"
    show ?thesis
    proof (cases "?d = []")
      case True
      with \<open>isspace c\<close> show ?thesis by (simp del: dropWhile_eq_Nil_conv)
    next
      case False
      then have "\<not> isspace (hd ?d)" by (simp add: hd_dropWhile)
      with False have "dropWhile isspace (re_sub_ws ?d) = re_sub_ws ?d"
        by (rule dropWhile_re_sub_ws)
      with True "2.IH"(1) show ?thesis by simp
    qed
  next
    case False
    with "2.IH"(2) show ?thesis by simp
  qed
qed

lemma set_re_sub_ws: "set (re_sub_ws x) \<subseteq> insert CHR '' '' (set x)"
proof (induction x rule: re_sub_ws.induct)
  case 1
  show ?case by simp
next
  case (2 c cs)
  have "set (dropWhile isspace cs) \<subseteq> set cs" by (auto dest: set_dropWhileD)
  with 2 show ?case by (cases "isspace c") auto
qed

lemma last_dropWhile:
  "xs \<noteq> [] \<Longrightarrow> \<not> P (last xs) \<Longrightarrow>
     dropWhile P xs \<noteq> [] \<and> last (dropWhile P xs) = last xs"
  by (induction xs) (auto split: if_splits)

lemma last_re_sub_ws:
  "x \<noteq> [] \<Longrightarrow> \<not> isspace (last x) \<Longrightarrow> last (re_sub_ws x) = last x"
proof (induction x rule: re_sub_ws.induct)
  case 1
  then show ?case by simp
next
  case (2 c cs)
  show ?case
  proof (cases "isspace c")
    case True
    with "2.prems" have cs: "cs \<noteq> []" by auto
    with "2.prems" have l: "\<not> isspace (last cs)" by simp
    let ?d = "dropWhile isspace cs"
    from last_dropWhile[of cs isspace, OF cs l] have d: "?d \<noteq> []" and ld: "last ?d = last cs"
      by blast+
    from d l ld have 1: "last (re_sub_ws ?d) = last ?d"
      by (intro "2.IH"(1)[OF True]) simp_all
    have 2: "re_sub_ws ?d \<noteq> []" using d by (simp del: dropWhile_eq_Nil_conv)
    have "last (re_sub_ws (c # cs)) = last (CHR '' '' # re_sub_ws ?d)" using True by simp
    also have "\<dots> = last (re_sub_ws ?d)" using 2 by (rule last_ConsR)
    also have "\<dots> = last (c # cs)" using 1 ld cs by simp
    finally show ?thesis .
  next
    case False
    with "2.IH"(2) "2.prems" show ?thesis by (cases "cs = []") auto
  qed
qed

lemma strip_trimmed: "trimmed t \<Longrightarrow> strip t = t"
proof (cases "t = []")
  case True
  then show ?thesis by (simp add: strip_def)
next
  case False
  assume "trimmed t"
  with False have h: "\<not> isspace (hd t)" and l: "\<not> isspace (last t)"
    by (auto simp: trimmed_def)
  from False h have 1: "dropWhile isspace t = t" by (cases t) auto
  from False l have 2: "dropWhile isspace (rev t) = rev t"
    by (cases "rev t") (auto simp: last_rev hd_rev[symmetric])
  show ?thesis by (simp add: strip_def 1 2)
qed

lemma trimmed_strip: "trimmed (strip s)"
proof -
  let ?u = "dropWhile isspace s"
  let ?v = "dropWhile isspace (rev ?u)"
  show ?thesis
  proof (cases "?v = []")
    case True
    then show ?thesis by (simp add: strip_def trimmed_def)
  next
    case False
    then have hv: "\<not> isspace (hd ?v)" by (simp add: hd_dropWhile)
    have u: "?u \<noteq> []"
    proof
      assume "?u = []"
      then have "?v = []" by (simp only: rev.simps dropWhile.simps)
      with False show False ..
    qed
    then have hu: "\<not> isspace (hd ?u)" by (simp add: hd_dropWhile)
    have "last (takeWhile isspace (rev ?u) @ ?v) = last ?v"
      using False by (rule last_appendR)
    then have "last ?v = last (rev ?u)"
      by (simp only: takeWhile_dropWhile_id)
    with u have lv: "last ?v = hd ?u" by (simp add: last_rev)
    from False hv hu lv show ?thesis
      by (simp add: strip_def trimmed_def hd_rev last_rev)
  qed
qed

lemma trimmed_lower: "trimmed t \<Longrightarrow> trimmed (lower t)"
  by (auto simp: trimmed_def lower_def hd_map last_map)

lemma trimmed_re_sub_ws: "trimmed t \<Longrightarrow> trimmed (re_sub_ws t)"
  by (auto simp: trimmed_def isspace_hd_re_sub_ws last_re_sub_ws)

lemma trimmed_normalize_skill: "trimmed (normalize_skill s)"
  unfolding normalize_skill_def
  by (intro trimmed_re_sub_ws trimmed_lower trimmed_strip)

lemma lower_fixed: "\<forall>c\<in>set t. lower_char c = c \<Longrightarrow> lower t = t"
  by (simp add: lower_def map_idI)

lemma lowered_normalize_skill: "c \<in> set (normalize_skill s) \<Longrightarrow> lower_char c = c"
proof -
  assume "c \<in> set (normalize_skill s)"
  with set_re_sub_ws[of "lower (strip s)"]
  have "c = CHR '' '' \<or> c \<in> set (lower (strip s))"
    by (auto simp: normalize_skill_def)
  then show ?thesis by (auto simp: lower_def)
qed

lemma normalize_skill_idem: "normalize_skill (normalize_skill s) = normalize_skill s"
proof -
  let ?t = "normalize_skill s"
  have 1: "strip ?t = ?t" by (rule strip_trimmed[OF trimmed_normalize_skill])
  have 2: "lower ?t = ?t" by (rule lower_fixed) (auto dest: lowered_normalize_skill)
  have "normalize_skill ?t = re_sub_ws ?t" by (simp add: normalize_skill_def[of ?t] 1 2)
  also have "\<dots> = ?t" by (simp add: normalize_skill_def[of s] re_sub_ws_idem)
  finally show ?thesis .
qed

lemma ws_re_sub_ws: "c \<in> set (re_sub_ws x) \<Longrightarrow> isspace c \<Longrightarrow> c = CHR '' ''"
proof (induction x rule: re_sub_ws.induct)
  case 1
  then show ?case by simp
next
  case (2 a cs)
  then show ?case by (cases "isspace a") auto
qed

lemma no_double_ws_Cons:
  "no_double_ws r \<Longrightarrow> r = [] \<or> \<not> (isspace a \<and> isspace (hd r)) \<Longrightarrow> no_double_ws (a # r)"
  by (cases r) auto

lemma no_double_ws_re_sub_ws: "no_double_ws (re_sub_ws x)"
proof (induction x rule: re_sub_ws.induct)
  case 1
  show ?case by simp
next
  case (2 c cs)
  show ?case
  proof (cases "isspace c")
    case True
    let ?d = "dropWhile isspace cs"
    have "re_sub_ws ?d = [] \<or> \<not> isspace (hd (re_sub_ws ?d))"
    proof (cases "?d = []")
      case True
      then show ?thesis by (simp del: dropWhile_eq_Nil_conv)
    next
      case False
      then have "\<not> isspace (hd ?d)" by (simp add: hd_dropWhile)
      with False show ?thesis by (simp only: isspace_hd_re_sub_ws simp_thms)
    qed
    with "2.IH"(1)[OF True] have "no_double_ws (CHR '' '' # re_sub_ws ?d)"
      by (intro no_double_ws_Cons) auto
    with True show ?thesis by simp
  next
    case False
    with "2.IH"(2) show ?thesis by (auto intro: no_double_ws_Cons)
  qed
qed

declare dropWhile_eq_Nil_conv [simp del]

lemma py_split_Nil: "dropWhile isspace s = [] \<Longrightarrow> py_split s = []"
  by (subst py_split.simps) simp

lemma py_split_empty [simp]: "py_split [] = []"
  by (simp add: py_split_Nil)

lemma py_split_Cons:
  "dropWhile isspace s = c # cs \<Longrightarrow>
   py_split s = (c # takeWhile (\<lambda>x. \<not> isspace x) cs) # py_split (dropWhile (\<lambda>x. \<not> isspace x) cs)"
  by (subst py_split.simps) simp

lemma py_split_dropWhile: "py_split (dropWhile isspace s) = py_split s"
  by (subst py_split.simps, subst (2) py_split.simps) simp

lemma py_split_eq_Nil_iff: "py_split s = [] \<longleftrightarrow> (\<forall>c\<in>set s. isspace c)"
proof (cases "dropWhile isspace s")
  case Nil
  then have "\<forall>c\<in>set s. isspace c" by (simp only: dropWhile_eq_Nil_conv)
  with Nil show ?thesis by (simp add: py_split_Nil)
next
  case (Cons c cs)
  have "\<not> (\<forall>c\<in>set s. isspace c)"
  proof
    assume "\<forall>c\<in>set s. isspace c"
    then have "dropWhile isspace s = []" by (simp only: dropWhile_eq_Nil_conv)
    with Cons show False by simp
  qed
  with Cons show ?thesis by (simp add: py_split_Cons)
qed

lemma re_sub_ws_nonws_prefix:
  "\<forall>c\<in>set w. \<not> isspace c \<Longrightarrow> re_sub_ws (w @ r) = w @ re_sub_ws r"
  by (induction w) auto

lemma re_sub_ws_py_split:
  "s = [] \<or> \<not> isspace (last s) \<Longrightarrow> re_sub_ws (dropWhile isspace s) = join_space (py_split s)"
proof (induction s rule: py_split.induct)
  case (1 s)
  show ?case
  proof (cases "dropWhile isspace s")
    case Nil
    then show ?thesis by (simp add: py_split_Nil)
  next
    case (Cons c cs)
    let ?w = "c # takeWhile (\<lambda>x. \<not> isspace x) cs"
    let ?r = "dropWhile (\<lambda>x. \<not> isspace x) cs"
    have c: "\<not> isspace c" using hd_dropWhile[of isspace s] Cons by simp
    have w: "\<forall>x\<in>set ?w. \<not> isspace x" using c by (auto dest: set_takeWhileD)
    have split: "c # cs = ?w @ ?r" by simp
    have sne: "s \<noteq> []" using Cons by auto
    with "1.prems" have ls: "\<not> isspace (last s)" by simp
    have lcs: "last (c # cs) = last s"
      using last_dropWhile[of s isspace, OF sne ls] Cons by simp
    have 2: "re_sub_ws (c # cs) = ?w @ re_sub_ws ?r"
      by (subst split, rule re_sub_ws_nonws_prefix[OF w])
    show ?thesis
    proof (cases "?r = []")
      case True
      then have e: "py_split ?r = []" by (simp add: py_split_Nil)
      have "re_sub_ws (dropWhile isspace s) = re_sub_ws (c # cs)" by (simp only: Cons)
      also have "\<dots> = ?w @ re_sub_ws ?r" by (rule 2)
      also have "\<dots> = join_space (?w # py_split ?r)" by (simp add: True e)
      also have "\<dots> = join_space (py_split s)" by (simp only: py_split_Cons[OF Cons])
      finally show ?thesis .
    next
      case False
      then have hr: "isspace (hd ?r)" using hd_dropWhile[of "\<lambda>x. \<not> isspace x" cs] by simp
      have "last ?r = last (c # cs)" using False split by (metis last_appendR)
      with lcs ls have lr: "\<not> isspace (last ?r)" by simp
      from False lr have ne: "py_split ?r \<noteq> []"
        by (auto simp: py_split_eq_Nil_iff intro: bexI[of _ "last ?r"])
      have IH: "re_sub_ws (dropWhile isspace ?r) = join_space (py_split ?r)"
        using "1.IH"[OF Cons] lr by simp
      obtain a r' where r: "?r = a # r'" using False by (cases ?r) auto
      with hr have a: "isspace a" by simp
      have "re_sub_ws ?r = CHR '' '' # re_sub_ws (dropWhile isspace ?r)"
        using a by (simp add: r)
      with IH have 3: "re_sub_ws ?r = CHR '' '' # join_space (py_split ?r)" by simp
      obtain p ps where p: "py_split ?r = p # ps" using ne by (cases "py_split ?r") auto
      have "re_sub_ws (dropWhile isspace s) = re_sub_ws (c # cs)" by (simp only: Cons)
      also have "\<dots> = ?w @ re_sub_ws ?r" by (rule 2)
      also have "\<dots> = ?w @ CHR '' '' # join_space (py_split ?r)" by (simp only: 3)
      also have "\<dots> = join_space (?w # py_split ?r)" by (simp only: p join_space.simps)
      also have "\<dots> = join_space (py_split s)" by (simp only: py_split_Cons[OF Cons])
      finally show ?thesis .
    qed
  qed
qed


lemma py_split_append_ws:
  "\<forall>c\<in>set tr. isspace c \<Longrightarrow> py_split (s @ tr) = py_split s"
proof (induction s rule: py_split.induct)
  case (1 s)
  show ?case
  proof (cases "dropWhile isspace s")
    case Nil
    then have a: "\<forall>c\<in>set s. isspace c" by (simp only: dropWhile_eq_Nil_conv)
    with "1.prems" have "\<forall>c\<in>set (s @ tr). isspace c" by auto
    with a show ?thesis by (simp only: py_split_eq_Nil_iff[THEN iffD2])
  next
    case (Cons c cs)
    let ?Q = "\<lambda>x. \<not> isspace x"
    have c: "\<not> isspace c" using hd_dropWhile[of isspace s] Cons by simp
    have ex: "\<exists>x\<in>set s. \<not> isspace x"
    proof (rule ccontr)
      assume "\<not> ?thesis"
      then have "dropWhile isspace s = []" by (simp add: dropWhile_eq_Nil_conv)
      with Cons show False by simp
    qed
    then obtain x where "x \<in> set s" "\<not> isspace x" by blast
    then have d: "dropWhile isspace (s @ tr) = c # (cs @ tr)"
      by (simp add: dropWhile_append1[of x] Cons)
    show ?thesis
    proof (cases "dropWhile ?Q cs = []")
      case True
      then have allq: "\<forall>x\<in>set cs. \<not> isspace x" by (simp add: dropWhile_eq_Nil_conv)
      then have t: "takeWhile ?Q cs = cs" by simp
      have t2: "takeWhile ?Q (cs @ tr) = cs"
      proof (cases tr)
        case Nil
        with t show ?thesis by simp
      next
        case (Cons a tr')
        with "1.prems" have "isspace a" by simp
        with allq Cons show ?thesis by (simp add: takeWhile_append2)
      qed
      have d2: "dropWhile ?Q (cs @ tr) = tr"
      proof (cases tr)
        case Nil
        with True show ?thesis by simp
      next
        case (Cons a tr')
        with "1.prems" have "isspace a" by simp
        with allq Cons show ?thesis by (simp add: dropWhile_append2)
      qed
      have "py_split tr = []" using "1.prems" by (simp only: py_split_eq_Nil_iff[THEN iffD2])
      then show ?thesis
        by (simp add: py_split_Cons[OF d] py_split_Cons[OF Cons] t t2 d2 True py_split_Nil)
    next
      case False
      then have "\<exists>x\<in>set cs. \<not> ?Q x" by (auto simp: dropWhile_eq_Nil_conv)
      then obtain y where y: "y \<in> set cs" "\<not> ?Q y" by blast
      then have t2: "takeWhile ?Q (cs @ tr) = takeWhile ?Q cs"
        by (rule takeWhile_append1)
      from y have d2: "dropWhile ?Q (cs @ tr) = dropWhile ?Q cs @ tr"
        by (rule dropWhile_append1)
      from "1.IH"[OF Cons "1.prems"] show ?thesis
        by (simp add: py_split_Cons[OF d] py_split_Cons[OF Cons] t2 d2)
    qed
  qed
qed

lemma py_split_strip: "py_split (strip s) = py_split s"
proof -
  let ?u = "dropWhile isspace s"
  have "rev ?u = takeWhile isspace (rev ?u) @ dropWhile isspace (rev ?u)" by simp
  then have u: "?u = strip s @ rev (takeWhile isspace (rev ?u))"
    by (metis rev_append rev_rev_ident strip_def)
  have "\<forall>c\<in>set (rev (takeWhile isspace (rev ?u))). isspace c"
    by (auto dest: set_takeWhileD)
  from py_split_append_ws[OF this, of "strip s"] u
  have "py_split ?u = py_split (strip s)" by simp
  then show ?thesis by (simp add: py_split_dropWhile)
qed

lemma py_split_lower: "py_split (lower s) = map lower (py_split s)"
proof (induction s rule: py_split.induct)
  case (1 s)
  have dw: "dropWhile isspace (lower s) = lower (dropWhile isspace s)"
    by (simp add: lower_def dropWhile_map o_def)
  show ?case
  proof (cases "dropWhile isspace s")
    case Nil
    with dw have "dropWhile isspace (lower s) = []" by (simp add: lower_def)
    with Nil show ?thesis by (simp add: py_split_Nil)
  next
    case (Cons c cs)
    with dw have d: "dropWhile isspace (lower s) = lower_char c # lower cs"
      by (simp add: lower_def)
    have t: "takeWhile (\<lambda>x. \<not> isspace x) (lower cs) = lower (takeWhile (\<lambda>x. \<not> isspace x) cs)"
      by (simp add: lower_def takeWhile_map o_def)
    have r: "dropWhile (\<lambda>x. \<not> isspace x) (lower cs) = lower (dropWhile (\<lambda>x. \<not> isspace x) cs)"
      by (simp add: lower_def dropWhile_map o_def)
    from "1.IH"[OF Cons] show ?thesis
      by (simp add: py_split_Cons[OF d] py_split_Cons[OF Cons] t r) (simp add: lower_def)
  qed
qed

lemma normalize_skill_split: "normalize_skill s = join_space (map lower (py_split s))"
proof -
  let ?t = "lower (strip s)"
  have tr: "trimmed ?t" by (intro trimmed_lower trimmed_strip)
  then have d: "dropWhile isspace ?t = ?t" by (cases ?t) (auto simp: trimmed_def)
  from tr have "?t = [] \<or> \<not> isspace (last ?t)" by (auto simp: trimmed_def)
  from re_sub_ws_py_split[OF this] have "re_sub_ws ?t = join_space (py_split ?t)"
    by (simp only: d)
  then show ?thesis
    by (simp add: normalize_skill_def py_split_lower py_split_strip)
qed

declare dropWhile_eq_Nil_conv [simp]

text \<open>
  Claim C9. \<open>normalize_skill\<close> is a total function of its argument alone (the
  recursion of \<open>re_sub_ws\<close> terminates). Its result is the lower-cased maximal
  non-whitespace blocks of the input joined by single spaces, which is also
  \<open>' '.join(s.lower().split())\<close>: the input is lower-cased, whitespace at both ends is
  dropped, and every run of whitespace between two blocks becomes exactly one space.
  So every character of the result is its own lower case, the only whitespace in it is
  the single space, it has no whitespace at either end and no two whitespace characters
  in a row. It is idempotent. Strings are sequences of code points below 256.
\<close>

theorem normalize_skill_spec:
  "normalize_skill s = join_space (map lower (py_split s)) \<and>
   normalize_skill s = join_space (py_split (lower s)) \<and>
   normalize_skill (normalize_skill s) = normalize_skill s \<and>
   (\<forall>c \<in> set (normalize_skill s). lower_char c = c \<and> (isspace c \<longrightarrow> c = CHR '' '')) \<and>
   trimmed (normalize_skill s) \<and>
   no_double_ws (normalize_skill s)"
proof -
  have "c = CHR '' ''" if "c \<in> set (normalize_skill s)" "isspace c" for c
    using that unfolding normalize_skill_def by (rule ws_re_sub_ws)
  moreover have "no_double_ws (normalize_skill s)"
    unfolding normalize_skill_def by (rule no_double_ws_re_sub_ws)
  moreover have "normalize_skill s = join_space (py_split (lower s))"
    by (simp only: normalize_skill_split py_split_lower)
  ultimately show ?thesis
    using normalize_skill_split normalize_skill_idem trimmed_normalize_skill
      lowered_normalize_skill by blast
qed

theorem normalize_skill_spec_witness:
  "py_split ''  Machine   Learning '' = [''Machine'', ''Learning''] \<and>
   normalize_skill ''  Machine   Learning '' = ''machine learning'' \<and>
   normalize_skill ''machine learning'' = ''machine learning'' \<and>
   normalize_skill (''AWS'' @ [CHR 0x09, CHR 0x0A, CHR 0xA0] @ ''Cloud'') = ''aws cloud'' \<and>
   trimmed ''machine learning'' \<and>
   no_double_ws ''machine learning''"
proof -
  let ?s = "''  Machine   Learning ''"
  let ?t = "''AWS'' @ [CHR 0x09, CHR 0x0A, CHR 0xA0] @ ''Cloud''"
  have p: "py_split ?s = [''Machine'', ''Learning'']" by code_simp
  have j: "join_space (map lower [''Machine'', ''Learning'']) = ''machine learning''"
    by code_simp
  have q: "join_space (map lower (py_split ?t)) = ''aws cloud''" by code_simp
  from normalize_skill_spec[of ?s] have e: "normalize_skill ?s = ''machine learning''"
    unfolding p j by (rule conjunct1)
  from normalize_skill_spec[of ?t] have e': "normalize_skill ?t = ''aws cloud''"
    unfolding q by (rule conjunct1)
  from normalize_skill_spec[of ?s] have
    "normalize_skill ''machine learning'' = ''machine learning''"
    "trimmed ''machine learning''" "no_double_ws ''machine learning''"
    unfolding e by blast+
  with p e e' show ?thesis by blast
qed

section \<open>Properties of the matcher\<close>

lemma fl_0 [simp]: "fl 0 = 0"
  by (simp add: fl_def)

lemma round_half_even_0 [simp]: "round_half_even 0 = 0"
  by (simp add: round_half_even_def)

lemma score_0: "py_round (py_float_mul (fl (0 / x)) 100) 1 = 0"
  by (simp add: py_round_def py_float_mul_def)


lemma fl_half: "fl (1 / 2) = 1 / 2"
  using fl_eqI[of "-53" "1 / 2" "2 ^ 52"] by (simp add: pow2_def)

lemma fl_50: "fl 50 = 50"
  using fl_eqI[of "-47" 50 "50 * 2 ^ 47"] by (simp add: pow2_def)

lemma rhe_int: "round_half_even (of_int m) = m"
  by (rule round_half_even_eqI) simp_all

lemma score_two_of_three:
  "py_round (py_float_mul (fl (2 / 3)) 100) 1 = fl (667 / 10)"
proof -
  have a: "py_float_mul (fl (2 / 3)) 100 = 2345624805922133 / 35184372088832"
    by (simp only: py_float_mul_def fl_two_thirds of_int_numeral fl_two_thirds_100)
  show ?thesis by (simp only: py_round_def a power_one_right rhe_667 of_int_numeral)
qed


lemma score_one_of_two: "py_round (py_float_mul (fl (1 / 2)) 100) 1 = 50"
proof -
  have "round_half_even (500 :: rat) = 500" using rhe_int[of 500] by simp
  then show ?thesis by (simp add: py_round_def py_float_mul_def fl_half fl_50)
qed

lemma percent_of_Inr:
  "percent_of m t =
     Inr (if 0 < t then PyFloat (py_round (py_float_mul (fl (of_nat m / of_nat t)) 100) 1)
          else PyInt 0)"
  by (simp add: percent_of_def py_truediv_def)

lemma match_skills_eq:
  "match_skills rs js =
     Inr \<lparr>score_percentage =
            (if 0 < card (requiredSet js)
             then PyFloat (py_round (py_float_mul
                    (fl (of_nat (card (matchedSet rs js)) / of_nat (card (requiredSet js)))) 100) 1)
             else PyInt 0),
          matched_skills = sort (filter (\<lambda>skill. normalize_skill skill \<in> matchedSet rs js) js),
          missing_skills = sort (filter (\<lambda>skill. normalize_skill skill \<in> missingSet rs js) js),
          total_skills_count = card (requiredSet js),
          matched_count = card (matchedSet rs js)\<rparr>"
  unfolding match_skills_def Let_def percent_of_Inr discard_def
    requiredSet_def resumeSet_def matchedSet_def missingSet_def
  by (simp only: sum.case)

lemma match_skills_python_sql_go:
  "match_skills [''Python'', ''SQL''] [''Python'', ''SQL'', ''Go''] =
     Inr \<lparr>score_percentage = PyFloat (fl (667 / 10)),
          matched_skills = [''Python'', ''SQL''],
          missing_skills = [''Go''],
          total_skills_count = 3,
          matched_count = 2\<rparr>"
proof -
  let ?rs = "[''Python'', ''SQL'']" and ?js = "[''Python'', ''SQL'', ''Go'']"
  have c1: "card (requiredSet ?js) = 3" by code_simp
  have c2: "card (matchedSet ?rs ?js) = 2" by code_simp
  have m1: "sort (filter (\<lambda>skill. normalize_skill skill \<in> matchedSet ?rs ?js) ?js) =
      [''Python'', ''SQL'']" by code_simp
  have m2: "sort (filter (\<lambda>skill. normalize_skill skill \<in> missingSet ?rs ?js) ?js) =
      [''Go'']" by code_simp
  show ?thesis
    unfolding match_skills_eq c1 c2 m1 m2 using score_two_of_three by simp
qed


lemma match_skills_aws:
  "match_skills [''aws''] [''AWS'', ''aws'', ''Go'', ''go''] =
     Inr \<lparr>score_percentage = PyFloat 50,
          matched_skills = [''AWS'', ''aws''],
          missing_skills = [''Go'', ''go''],
          total_skills_count = 2,
          matched_count = 1\<rparr>"
proof -
  let ?rs = "[''aws'']" and ?js = "[''AWS'', ''aws'', ''Go'', ''go'']"
  have c1: "card (requiredSet ?js) = 2" by code_simp
  have c2: "card (matchedSet ?rs ?js) = 1" by code_simp
  have m1: "sort (filter (\<lambda>skill. normalize_skill skill \<in> matchedSet ?rs ?js) ?js) =
      [''AWS'', ''aws'']" by code_simp
  have m2: "sort (filter (\<lambda>skill. normalize_skill skill \<in> missingSet ?rs ?js) ?js) =
      [''Go'', ''go'']" by code_simp
  show ?thesis
    unfolding match_skills_eq c1 c2 m1 m2 using score_one_of_two by simp
qed


lemma normalize_skill_Null: "normalize_skill ''Null'' = ''null''"
  by code_simp

lemma match_skills_Null:
  "match_skills rs [''Null''] =
     Inr \<lparr>score_percentage = PyInt 0, matched_skills = [], missing_skills = [],
          total_skills_count = 0, matched_count = 0\<rparr>"
proof -
  have r: "requiredSet [''Null''] = {}" by (simp add: requiredSet_def normalize_skill_Null)
  show ?thesis unfolding match_skills_eq by (simp add: r matchedSet_def missingSet_def)
qed

lemma not_isspace_lower_null:
  "lower s = ''null'' \<Longrightarrow> c \<in> set s \<Longrightarrow> \<not> isspace c"
proof -
  assume l: "lower s = ''null''" and c: "c \<in> set s"
  then have "lower_char c \<in> set ''null''" by (auto simp: lower_def simp flip: l)
  then have "\<not> isspace (lower_char c)" by (auto simp: isspace_def)
  then show ?thesis by simp
qed

lemma normalize_skill_null_any_case:
  assumes "lower s = ''null''"
  shows "normalize_skill s = ''null''"
proof -
  have ne: "s \<noteq> []" using assms by (auto simp: lower_def)
  then have "\<not> isspace (hd s)" "\<not> isspace (last s)"
    using not_isspace_lower_null[OF assms] by simp_all
  then have "trimmed s" by (simp add: trimmed_def)
  then have "strip s = s" by (rule strip_trimmed)
  then show ?thesis by (simp add: normalize_skill_def assms isspace_def)
qed

lemma sort_filter_cong_mset:
  fixes xs ys :: "('a :: linorder) list"
  assumes "mset xs = mset ys"
  shows "sort (filter P xs) = sort (filter P ys)"
proof (rule properties_for_sort)
  show "mset (sort (filter P ys)) = mset (filter P xs)" using assms by simp
  show "sorted (sort (filter P ys))" by simp
qed

lemma match_skills_perm:
  assumes "mset rs' = mset rs" and "mset js' = mset js"
  shows "match_skills rs' js' = match_skills rs js"
proof -
  have s: "set rs' = set rs" "set js' = set js"
    using assms by (auto dest: mset_eq_setD)
  then have e: "requiredSet js' = requiredSet js" "matchedSet rs' js' = matchedSet rs js"
    "missingSet rs' js' = missingSet rs js"
    by (simp_all add: requiredSet_def resumeSet_def matchedSet_def missingSet_def)
  show ?thesis
    unfolding match_skills_eq e
    by (simp only: sort_filter_cong_mset[OF assms(2)])
qed



text \<open>
  Claim C1. \<open>match_skills\<close> returns, for every pair of skill lists, a result whose
  \<open>score_percentage\<close> is \<open>round(|matchedSet| / |requiredSet| * 100, 1)\<close> (float division,
  float product, rounding to one decimal) when the normalized, null-filtered required
  set is not empty, and the integer \<open>0\<close> when it is empty. In particular resume skills
  Python, SQL against required skills Python, SQL, Go give the score \<open>66.7\<close> (the float
  of that literal), matched Python, SQL and missing Go.
\<close>

theorem match_skills_score:
  "(\<exists>r. match_skills rs js = Inr r \<and>
        score_percentage r =
          (if 0 < card (requiredSet js)
           then PyFloat (py_round (py_float_mul
                  (fl (of_nat (card (matchedSet rs js)) / of_nat (card (requiredSet js)))) 100) 1)
           else PyInt 0)) \<and>
   match_skills [''Python'', ''SQL''] [''Python'', ''SQL'', ''Go''] =
     Inr \<lparr>score_percentage = PyFloat (fl (667 / 10)),
          matched_skills = [''Python'', ''SQL''],
          missing_skills = [''Go''],
          total_skills_count = 3,
          matched_count = 2\<rparr>"
proof (intro conjI)
  show "\<exists>r. match_skills rs js = Inr r \<and>
        score_percentage r =
          (if 0 < card (requiredSet js)
           then PyFloat (py_round (py_float_mul
                  (fl (of_nat (card (matchedSet rs js)) / of_nat (card (requiredSet js)))) 100) 1)
           else PyInt 0)"
    by (simp add: match_skills_eq)
qed (rule match_skills_python_sql_go)

theorem match_skills_score_witness:
  "match_skills [''Python'', ''SQL''] [''Python'', ''SQL'', ''Go''] =
     Inr \<lparr>score_percentage = PyFloat (4693595236650189 / 70368744177664),
          matched_skills = [''Python'', ''SQL''],
          missing_skills = [''Go''],
          total_skills_count = 3,
          matched_count = 2\<rparr>"
  using match_skills_score[of "[]" "[]"] unfolding fl667 by (rule conjunct2)

text \<open>
  Claim C2. Every entry that normalizes to the sentinel \<open>null\<close>, in any letter case, is
  left out of the resume set and of the required set: it is not counted in
  \<open>total_skills_count\<close> or \<open>matched_count\<close> and appears in neither output list. The
  required list \<open>["Null"]\<close> gives \<open>total_skills_count = 0\<close> and the score \<open>0\<close>. The
  division raises \<open>ZeroDivisionError\<close> on a zero denominator, and the guard keeps it from
  being evaluated there: \<open>match_skills\<close> returns a result, never an exception, on
  every input.
\<close>

theorem match_skills_null_excluded:
  "(\<exists>r. match_skills rs js = Inr r \<and>
        total_skills_count r = card (normalize_skill ` set js - {''null''}) \<and>
        matched_count r =
          card ((normalize_skill ` set js - {''null''}) \<inter>
                (normalize_skill ` set rs - {''null''})) \<and>
        (\<forall>s \<in> set (matched_skills r) \<union> set (missing_skills r).
            normalize_skill s \<noteq> ''null'')) \<and>
   (\<forall>e. match_skills rs js \<noteq> Inl e) \<and>
   ''null'' \<notin> requiredSet js \<and> ''null'' \<notin> resumeSet rs \<and>
   (lower s = ''null'' \<longrightarrow> normalize_skill s = ''null'') \<and>
   py_truediv m 0 = Inl ZeroDivisionError \<and> percent_of m 0 = Inr (PyInt 0) \<and>
   match_skills rs [''Null''] =
     Inr \<lparr>score_percentage = PyInt 0, matched_skills = [], missing_skills = [],
          total_skills_count = 0, matched_count = 0\<rparr>"
proof -
  have "\<exists>r. match_skills rs js = Inr r \<and>
        total_skills_count r = card (normalize_skill ` set js - {''null''}) \<and>
        matched_count r =
          card ((normalize_skill ` set js - {''null''}) \<inter>
                (normalize_skill ` set rs - {''null''})) \<and>
        (\<forall>s \<in> set (matched_skills r) \<union> set (missing_skills r).
            normalize_skill s \<noteq> ''null'')"
    by (auto simp: match_skills_eq requiredSet_def resumeSet_def matchedSet_def missingSet_def)
  moreover have "\<forall>e. match_skills rs js \<noteq> Inl e" by (simp add: match_skills_eq)
  moreover have "''null'' \<notin> requiredSet js" "''null'' \<notin> resumeSet rs"
    by (simp_all add: requiredSet_def resumeSet_def)
  moreover have "lower s = ''null'' \<longrightarrow> normalize_skill s = ''null''"
    by (simp add: normalize_skill_null_any_case)
  moreover have "py_truediv m 0 = Inl ZeroDivisionError" "percent_of m 0 = Inr (PyInt 0)"
    by (simp_all add: py_truediv_def percent_of_def)
  ultimately show ?thesis using match_skills_Null[of rs] by blast
qed

theorem match_skills_null_excluded_witness:
  "match_skills [''null'', ''Go''] [''NULL'', ''Go'', ''Rust''] =
     Inr \<lparr>score_percentage = PyFloat 50, matched_skills = [''Go''],
          missing_skills = [''Rust''], total_skills_count = 2, matched_count = 1\<rparr> \<and>
   normalize_skill ''NULL'' = ''null'' \<and>
   match_skills [''null'', ''Go''] [''Null''] =
     Inr \<lparr>score_percentage = PyInt 0, matched_skills = [], missing_skills = [],
          total_skills_count = 0, matched_count = 0\<rparr>"
proof -
  let ?rs = "[''null'', ''Go'']" and ?js = "[''NULL'', ''Go'', ''Rust'']"
  have c1: "card (requiredSet ?js) = 2" by code_simp
  have c2: "card (matchedSet ?rs ?js) = 1" by code_simp
  have m1: "sort (filter (\<lambda>skill. normalize_skill skill \<in> matchedSet ?rs ?js) ?js) =
      [''Go'']" by code_simp
  have m2: "sort (filter (\<lambda>skill. normalize_skill skill \<in> missingSet ?rs ?js) ?js) =
      [''Rust'']" by code_simp
  have l: "lower ''NULL'' = ''null''" by code_simp
  have 1: "match_skills ?rs ?js =
     Inr \<lparr>score_percentage = PyFloat 50, matched_skills = [''Go''],
          missing_skills = [''Rust''], total_skills_count = 2, matched_count = 1\<rparr>"
    unfolding match_skills_eq c1 c2 m1 m2 using score_one_of_two by simp
  from match_skills_null_excluded[of ?rs ?js "''NULL''"] l 1 show ?thesis by blast
qed

text \<open>
  Claim C3. The \<open>matched_skills\<close> (\<open>missing_skills\<close>) list holds exactly the entries of the
  required-skill input, in their original spelling, whose normalization lies in the
  matched (missing) set, each as often as it occurs in the input: the lists are equal
  as multisets to the filtered input. Two spellings of one skill both appear.
\<close>

theorem match_skills_one_to_many:
  "(\<exists>r. match_skills rs js = Inr r \<and>
        mset (matched_skills r) =
          filter_mset (\<lambda>s. normalize_skill s \<in> matchedSet rs js) (mset js) \<and>
        mset (missing_skills r) =
          filter_mset (\<lambda>s. normalize_skill s \<in> missingSet rs js) (mset js)) \<and>
   match_skills [''aws''] [''AWS'', ''aws'', ''Go'', ''go''] =
     Inr \<lparr>score_percentage = PyFloat 50,
          matched_skills = [''AWS'', ''aws''],
          missing_skills = [''Go'', ''go''],
          total_skills_count = 2,
          matched_count = 1\<rparr>"
proof (intro conjI)
  show "\<exists>r. match_skills rs js = Inr r \<and>
        mset (matched_skills r) =
          filter_mset (\<lambda>s. normalize_skill s \<in> matchedSet rs js) (mset js) \<and>
        mset (missing_skills r) =
          filter_mset (\<lambda>s. normalize_skill s \<in> missingSet rs js) (mset js)"
    by (simp add: match_skills_eq)
qed (rule match_skills_aws)

theorem match_skills_one_to_many_witness:
  "match_skills [''aws''] [''AWS'', ''aws'', ''Go'', ''go''] =
     Inr \<lparr>score_percentage = PyFloat 50,
          matched_skills = [''AWS'', ''aws''],
          missing_skills = [''Go'', ''go''],
          total_skills_count = 2,
          matched_count = 1\<rparr>"
  using match_skills_one_to_many[of "[]" "[]"] by (rule conjunct2)

text \<open>
  Claim C7. The \<open>matched_skills\<close> and \<open>missing_skills\<close> lists are sorted, in the order of
  Python's \<open>str\<close> (lexicographic by code point, so upper case before lower case), and the
  whole result does not depend on the order of either input list.
\<close>

theorem match_skills_sorted:
  "(\<exists>r. match_skills rs js = Inr r \<and> sorted (matched_skills r) \<and> sorted (missing_skills r)) \<and>
   (mset rs' = mset rs \<and> mset js' = mset js \<longrightarrow> match_skills rs' js' = match_skills rs js)"
proof (intro conjI impI)
  show "\<exists>r. match_skills rs js = Inr r \<and> sorted (matched_skills r) \<and> sorted (missing_skills r)"
    by (simp add: match_skills_eq)
next
  assume "mset rs' = mset rs \<and> mset js' = mset js"
  then have "mset rs' = mset rs" "mset js' = mset js" by simp_all
  then show "match_skills rs' js' = match_skills rs js"
    by (rule match_skills_perm)
qed

theorem match_skills_sorted_witness:
  "match_skills [''SQL'', ''Python''] [''Go'', ''SQL'', ''Python''] =
     Inr \<lparr>score_percentage = PyFloat (fl (667 / 10)),
          matched_skills = [''Python'', ''SQL''],
          missing_skills = [''Go''],
          total_skills_count = 3,
          matched_count = 2\<rparr>"
proof -
  have p1: "mset [''SQL'', ''Python''] = mset [''Python'', ''SQL'']"
    by (simp only: mset.simps add_mset_commute)
  have p2: "mset [''Go'', ''SQL'', ''Python''] = mset [''Python'', ''SQL'', ''Go'']"
    by (simp only: mset.simps add_mset_commute)
  note t = match_skills_sorted[of "[''Python'', ''SQL'']" "[''Python'', ''SQL'', ''Go'']"
      "[''SQL'', ''Python'']" "[''Go'', ''SQL'', ''Python'']"]
  have "match_skills [''SQL'', ''Python''] [''Go'', ''SQL'', ''Python''] =
        match_skills [''Python'', ''SQL''] [''Python'', ''SQL'', ''Go'']"
    by (rule conjunct2[OF t, THEN mp, OF conjI[OF p1 p2]])
  then show ?thesis by (simp only: match_skills_python_sql_go)
qed

lemma score_zero: "py_round (py_float_mul 0 100) n = 0"
  by (simp add: py_round_def py_float_mul_def)

text \<open>
  Claim C8. With an empty resume-skill list the score is \<open>0\<close>, nothing is matched, and
  the missing list is the whole required set: the sorted list of all required entries
  that do not normalize to the sentinel, whose normalizations are exactly the required
  set (and the sorted input itself when no entry is the sentinel). This holds for the
  empty required list too.
\<close>

theorem match_skills_empty_resume:
  "\<exists>r. match_skills [] js = Inr r \<and>
       num_value (score_percentage r) = 0 \<and>
       matched_skills r = [] \<and> matched_count r = 0 \<and>
       missing_skills r = sort (filter (\<lambda>s. normalize_skill s \<noteq> ''null'') js) \<and>
       normalize_skill ` set (missing_skills r) = requiredSet js \<and>
       ((\<forall>s\<in>set js. normalize_skill s \<noteq> ''null'') \<longrightarrow> missing_skills r = sort js)"
proof -
  have m: "matchedSet [] js = {}" "missingSet [] js = requiredSet js"
    by (simp_all add: matchedSet_def missingSet_def resumeSet_def)
  have f: "filter (\<lambda>skill. normalize_skill skill \<in> requiredSet js) js =
           filter (\<lambda>s. normalize_skill s \<noteq> ''null'') js"
    by (rule filter_cong) (auto simp: requiredSet_def)
  have i: "normalize_skill ` set (filter (\<lambda>s. normalize_skill s \<noteq> ''null'') js) = requiredSet js"
    by (auto simp: requiredSet_def)
  have a: "(\<forall>s\<in>set js. normalize_skill s \<noteq> ''null'') \<longrightarrow>
           filter (\<lambda>s. normalize_skill s \<noteq> ''null'') js = js"
    by simp
  show ?thesis
    unfolding match_skills_eq m f using i a by (simp add: score_zero)
qed

theorem match_skills_empty_resume_witness:
  "(\<exists>r. match_skills [] [''SQL'', ''Null'', ''Go''] = Inr r \<and>
        num_value (score_percentage r) = 0 \<and> matched_skills r = [] \<and>
        missing_skills r = [''Go'', ''SQL'']) \<and>
   (\<exists>r. match_skills [] [''SQL'', ''Go''] = Inr r \<and>
        num_value (score_percentage r) = 0 \<and> matched_skills r = [] \<and>
        missing_skills r = [''Go'', ''SQL''])"
proof -
  let ?js = "[''SQL'', ''Null'', ''Go'']" and ?js' = "[''SQL'', ''Go'']"
  have s: "sort (filter (\<lambda>s. normalize_skill s \<noteq> ''null'') ?js) = [''Go'', ''SQL'']"
    by code_simp
  have s': "sort ?js' = [''Go'', ''SQL'']"
    by code_simp
  have n: "\<forall>s\<in>set ?js'. normalize_skill s \<noteq> ''null''"
    by code_simp
  from match_skills_empty_resume[of ?js] have 1:
    "\<exists>r. match_skills [] ?js = Inr r \<and>
        num_value (score_percentage r) = 0 \<and> matched_skills r = [] \<and>
        missing_skills r = [''Go'', ''SQL'']"
    unfolding s by blast
  from match_skills_empty_resume[of ?js'] n have 2:
    "\<exists>r. match_skills [] ?js' = Inr r \<and>
        num_value (score_percentage r) = 0 \<and> matched_skills r = [] \<and>
        missing_skills r = [''Go'', ''SQL'']"
    unfolding s' by blast
  from 1 2 show ?thesis ..
qed



section \<open>Properties of the scraper\<close>

lemma safe_request_world:
  "snd (safe_request env w url) = w\<lparr>sent := sent w @ [(url, user_agent env w)]\<rparr>"
  by (simp add: safe_request_def Let_def split: sum.split)

lemma safe_request_None:
  "requests_get env (sent w) url (user_agent env w) = Inl e \<Longrightarrow>
   fst (safe_request env w url) = None"
  by (simp add: safe_request_def Let_def)

lemma safe_request_Some:
  "requests_get env (sent w) url (user_agent env w) = Inr r \<Longrightarrow>
   fst (safe_request env w url) = Some r"
  by (simp add: safe_request_def Let_def)

lemma ddg_results_extends:
  "\<exists>add. fst (ddg_results env tags recs) = recs @ add \<and> length add \<le> length tags"
proof (induction tags arbitrary: recs)
  case Nil
  show ?case by simp
next
  case (Cons t ts)
  let ?link = "case href t of None \<Rightarrow> [] | Some h \<Rightarrow> h"
  let ?u = "if str_contains ''uddg='' ?link then uddg_of env ?link else Inr ?link"
  show ?case
  proof (cases ?u)
    case (Inl e)
    then show ?thesis by (simp add: Let_def)
  next
    case (Inr l)
    let ?recs' = "if startswith l ''http'' then recs @ [\<lparr>title = get_text t, link = l\<rparr>] else recs"
    from Cons[of ?recs'] obtain add where
      a: "fst (ddg_results env ts ?recs') = ?recs' @ add" "length add \<le> length ts" by blast
    have "fst (ddg_results env (t # ts) recs) = fst (ddg_results env ts ?recs')"
      using Inr by (simp add: Let_def)
    with a show ?thesis
      by (cases "startswith l ''http''") (auto intro: exI[of _ "\<lparr>title = get_text t, link = l\<rparr> # add"])
  qed
qed

lemma coursera_results_extends:
  "\<exists>add. coursera_results tags recs = recs @ add \<and> length add = length tags"
proof (induction tags arbitrary: recs)
  case Nil
  show ?case by simp
next
  case (Cons a rest)
  let ?r = "\<lparr>title = get_text a,
          link = ''https://www.coursera.org'' @ (case href a of None \<Rightarrow> [] | Some h \<Rightarrow> h)\<rparr>"
  from Cons[of "recs @ [?r]"] obtain add where
    "coursera_results rest (recs @ [?r]) = (recs @ [?r]) @ add" "length add = length rest" by blast
  then show ?case by (auto intro: exI[of _ "?r # add"])
qed

lemma duckduckgo_scrape_world:
  "snd (duckduckgo_scrape env w skill recs) =
     w\<lparr>sent := sent w @ [(ddg_url skill, user_agent env w)]\<rparr>"
  by (simp add: duckduckgo_scrape_def Let_def split_beta safe_request_world
      split: option.split sum.split)

lemma coursera_scrape_world:
  "snd (coursera_scrape env w skill recs) =
     w\<lparr>sent := sent w @ [(coursera_url skill, user_agent env w)]\<rparr>"
  by (simp add: coursera_scrape_def Let_def split_beta safe_request_world
      split: option.split sum.split)

lemma duckduckgo_scrape_extends:
  "\<exists>add. fst (duckduckgo_scrape env w skill recs) = recs @ add \<and> length add \<le> 2"
proof -
  have "\<exists>add. fst (ddg_results env (take 2 tags) recs) = recs @ add \<and> length add \<le> 2" for tags
    using ddg_results_extends[of env "take 2 tags" recs] by auto
  then show ?thesis
    by (simp add: duckduckgo_scrape_def Let_def split_beta split: option.split sum.split)
qed

lemma coursera_scrape_extends:
  "\<exists>add. fst (coursera_scrape env w skill recs) = recs @ add \<and> length add \<le> 1"
proof -
  have "\<exists>add. coursera_results (take 1 tags) recs = recs @ add \<and> length add \<le> 1" for tags
    using coursera_results_extends[of "take 1 tags" recs] by auto
  then show ?thesis
    by (simp add: coursera_scrape_def Let_def split_beta split: option.split sum.split)
qed

lemma fetch_skill_eq:
  "fetch_skill env (m, w) skill =
     (let p = fst (duckduckgo_scrape env w skill []);
          w1 = w\<lparr>sent := sent w @ [(ddg_url skill, user_agent env w)]\<rparr>;
          r = (if length p < 2 then coursera_scrape env w1 skill p else (p, w1))
      in (m(skill \<mapsto> fst r), (snd r)\<lparr>slept := slept w + 1\<rparr>))"
proof -
  obtain p w1 where d: "duckduckgo_scrape env w skill [] = (p, w1)"
    by (cases "duckduckgo_scrape env w skill []")
  with duckduckgo_scrape_world[of env w skill "[]"]
  have w1: "w1 = w\<lparr>sent := sent w @ [(ddg_url skill, user_agent env w)]\<rparr>" by simp
  have s: "slept (snd (coursera_scrape env w1 skill p)) = slept w"
    by (simp add: coursera_scrape_world w1)
  show ?thesis
    by (simp add: fetch_skill_def Let_def d split_beta s) (simp add: w1)
qed

lemma fetch_skill_other: "s \<noteq> skill \<Longrightarrow> fst (fetch_skill env (m, w) skill) s = m s"
  by (simp add: fetch_skill_eq Let_def)

lemma fetch_skill_dom: "dom (fst (fetch_skill env (m, w) skill)) = insert skill (dom m)"
  by (simp add: fetch_skill_eq Let_def)

lemma fetch_skill_slept: "slept (snd (fetch_skill env (m, w) skill)) = slept w + 1"
  by (simp add: fetch_skill_eq Let_def)

lemma foldl_fetch_skill_dom:
  "dom (fst (foldl (fetch_skill env) (m, w) xs)) = dom m \<union> set xs"
proof (induction xs rule: rev_induct)
  case Nil
  show ?case by simp
next
  case (snoc x xs)
  obtain m' w' where f: "foldl (fetch_skill env) (m, w) xs = (m', w')"
    by (cases "foldl (fetch_skill env) (m, w) xs")
  with snoc show ?case by (simp add: fetch_skill_dom)
qed

lemma foldl_fetch_skill_slept:
  "slept (snd (foldl (fetch_skill env) (m, w) xs)) = slept w + length xs"
proof (induction xs rule: rev_induct)
  case Nil
  show ?case by simp
next
  case (snoc x xs)
  obtain m' w' where f: "foldl (fetch_skill env) (m, w) xs = (m', w')"
    by (cases "foldl (fetch_skill env) (m, w) xs")
  with snoc show ?case by (simp add: fetch_skill_slept)
qed

lemma foldl_fetch_skill_entry:
  "s \<in> set xs \<Longrightarrow>
   \<exists>m0 w0. fst (foldl (fetch_skill env) (m, w) xs) s = fst (fetch_skill env (m0, w0) s) s"
proof (induction xs rule: rev_induct)
  case Nil
  then show ?case by simp
next
  case (snoc x xs)
  obtain m' w' where f: "foldl (fetch_skill env) (m, w) xs = (m', w')"
    by (cases "foldl (fetch_skill env) (m, w) xs")
  show ?case
  proof (cases "x = s")
    case True
    with f show ?thesis by auto
  next
    case False
    with snoc.prems have "s \<in> set xs" by simp
    from snoc.IH[OF this] f False show ?thesis by (simp add: fetch_skill_other)
  qed
qed

lemma dom_fetch_courses_for_skills:
  "dom (fst (fetch_courses_for_skills env w skills)) = set (take 3 skills)"
  by (simp add: fetch_courses_for_skills_def foldl_fetch_skill_dom)

lemma replace_space_append:
  "replace_space new (x @ y) = replace_space new x @ replace_space new y"
  by (simp add: replace_space_def)

lemma ddg_url_eq:
  "ddg_url skill =
     ''https://duckduckgo.com/html/?q=top+online+courses+for+'' @ replace_space ''+'' skill"
  by (simp add: ddg_url_def replace_space_append) (simp add: replace_space_def)

lemma ddg_url_neq_coursera_url: "ddg_url a \<noteq> coursera_url b"
  by (simp add: ddg_url_eq coursera_url_def)

lemma ddg_results_append:
  "snd (ddg_results env ts recs) = None \<Longrightarrow>
   ddg_results env (ts @ us) recs = ddg_results env us (fst (ddg_results env ts recs))"
proof (induction ts arbitrary: recs)
  case Nil
  show ?case by simp
next
  case (Cons t ts)
  let ?link = "case href t of None \<Rightarrow> [] | Some h \<Rightarrow> h"
  let ?u = "if str_contains ''uddg='' ?link then uddg_of env ?link else Inr ?link"
  show ?case
  proof (cases ?u)
    case (Inl e)
    with Cons.prems show ?thesis by (simp add: Let_def)
  next
    case (Inr l)
    let ?recs' = "if startswith l ''http'' then recs @ [\<lparr>title = get_text t, link = l\<rparr>] else recs"
    have 1: "ddg_results env (t # ts) recs = ddg_results env ts ?recs'"
      using Inr by (simp add: Let_def)
    have 2: "ddg_results env ((t # ts) @ us) recs = ddg_results env (ts @ us) ?recs'"
      using Inr by (simp add: Let_def)
    from Cons.prems 1 have "snd (ddg_results env ts ?recs') = None" by simp
    from Cons.IH[OF this] 1 2 show ?thesis by simp
  qed
qed

lemma ddg_results_raise:
  assumes "snd (ddg_results env ts recs) = None"
    and "href t = Some l" and "str_contains ''uddg='' l" and "uddg_of env l = Inl e"
  shows "ddg_results env (ts @ t # rest) recs = (fst (ddg_results env ts recs), Some e)"
  using assms(2-4) by (simp add: ddg_results_append[OF assms(1)] Let_def)

lemma scrape_request_fails:
  assumes "case requests_get env (sent w) url (user_agent env w) of
             Inl e \<Rightarrow> True | Inr r \<Rightarrow> status_code r \<noteq> 200"
  shows "url = ddg_url skill \<Longrightarrow> fst (duckduckgo_scrape env w skill recs) = recs"
    and "url = coursera_url skill \<Longrightarrow> fst (coursera_scrape env w skill recs) = recs"
  using assms
  by (auto simp: duckduckgo_scrape_def coursera_scrape_def safe_request_def Let_def
      split: sum.splits)

lemma scrape_select_fails:
  "requests_get env (sent w) (ddg_url skill) (user_agent env w) = Inr r \<Longrightarrow>
   select_result_a env (resp_text r) = Inl e \<Longrightarrow>
   fst (duckduckgo_scrape env w skill recs) = recs"
  "requests_get env (sent w) (coursera_url skill) (user_agent env w) = Inr r \<Longrightarrow>
   select_search_card env (resp_text r) = Inl e \<Longrightarrow>
   fst (coursera_scrape env w skill recs) = recs"
  by (simp_all add: duckduckgo_scrape_def coursera_scrape_def safe_request_def Let_def)

lemma fetch_skill_all_fail:
  assumes "\<forall>h u a. case requests_get env h u a of Inl e \<Rightarrow> True | Inr r \<Rightarrow> status_code r \<noteq> 200"
  shows "fst (fetch_skill env (m, w) skill) skill = Some []"
proof -
  have 1: "fst (duckduckgo_scrape env w skill []) = []"
    by (rule scrape_request_fails(1)[OF assms[rule_format] refl])
  have 2: "fst (coursera_scrape env w' skill []) = []" for w'
    by (rule scrape_request_fails(2)[OF assms[rule_format] refl])
  show ?thesis by (simp add: fetch_skill_eq Let_def 1 2)
qed

lemma fetch_all_fail:
  assumes "\<forall>h u a. case requests_get env h u a of Inl e \<Rightarrow> True | Inr r \<Rightarrow> status_code r \<noteq> 200"
    and "s \<in> set (take 3 skills)"
  shows "fst (fetch_courses_for_skills env w skills) s = Some []"
proof -
  from foldl_fetch_skill_entry[OF assms(2), of env Map.empty w] obtain m0 w0 where
    "fst (fetch_courses_for_skills env w skills) s = fst (fetch_skill env (m0, w0) s) s"
    by (auto simp: fetch_courses_for_skills_def)
  with fetch_skill_all_fail[OF assms(1)] show ?thesis by simp
qed

lemma fetch_skill_caps:
  "\<exists>p f. p = fst (duckduckgo_scrape env w skill []) \<and>
         fst (fetch_skill env (m, w) skill) skill = Some (p @ f) \<and>
         length p \<le> 2 \<and> length f \<le> 1 \<and> (2 \<le> length p \<longrightarrow> f = []) \<and>
         (length p < 2 \<longrightarrow>
            fst (coursera_scrape env
                   (w\<lparr>sent := sent w @ [(ddg_url skill, user_agent env w)]\<rparr>) skill p) = p @ f)"
proof -
  let ?p = "fst (duckduckgo_scrape env w skill [])"
  let ?w1 = "w\<lparr>sent := sent w @ [(ddg_url skill, user_agent env w)]\<rparr>"
  from duckduckgo_scrape_extends[of env w skill "[]"] have p: "length ?p \<le> 2" by auto
  show ?thesis
  proof (cases "length ?p < 2")
    case True
    from coursera_scrape_extends[of env ?w1 skill ?p] obtain f where
      "fst (coursera_scrape env ?w1 skill ?p) = ?p @ f" "length f \<le> 1" by blast
    with True p show ?thesis by (auto simp: fetch_skill_eq Let_def)
  next
    case False
    with p show ?thesis by (auto simp: fetch_skill_eq Let_def)
  qed
qed

lemma fetch_skill_sent:
  "sent (snd (fetch_skill env (m, w) skill)) =
     sent w @ (ddg_url skill, user_agent env w) #
       (if length (fst (duckduckgo_scrape env w skill [])) < 2
        then [(coursera_url skill,
               user_agent env (w\<lparr>sent := sent w @ [(ddg_url skill, user_agent env w)]\<rparr>))]
        else [])"
  by (simp add: fetch_skill_eq Let_def coursera_scrape_world)

lemma demo_go:
  "fst (duckduckgo_scrape env_demo w0 ''Go'' []) =
     [\<lparr>title = ''Learn Go'', link = ''https://go.dev/learn/''\<rparr>,
      \<lparr>title = ''Go by Example'', link = ''https://gobyexample.com/''\<rparr>]"
  by (simp add: duckduckgo_scrape_def safe_request_def env_demo_def w0_def Let_def startswith_def)

lemma demo_rust: "fst (duckduckgo_scrape env_demo w0 ''Rust'' []) = []"
  by (simp add: duckduckgo_scrape_def safe_request_def env_demo_def w0_def Let_def ddg_url_eq
      replace_space_def)

lemma demo_rust_fallback:
  "fst (coursera_scrape env_demo w ''Rust'' []) =
     [\<lparr>title = ''Course one'', link = ''https://www.coursera.org/learn/one''\<rparr>]"
  by (simp add: coursera_scrape_def safe_request_def env_demo_def Let_def)

text \<open>
  Claim C4. In one run of the loop body for a skill, the list stored for the skill is
  \<open>p @ f\<close>, where \<open>p\<close> is what the search engine (the primary provider) contributes,
  at most 2 recommendations, and \<open>f\<close> what the course catalog (the fallback)
  contributes, at most 1. The primary is always requested; the fallback is requested
  if and only if fewer than 2 recommendations were collected from the primary, so
  with 2 from the primary it is never consulted and adds nothing. Every entry of the
  result mapping is written by such a run.
\<close>

theorem fetch_provider_caps:
  "(\<exists>p f. p = fst (duckduckgo_scrape env w skill []) \<and>
          fst (fetch_skill env (m, w) skill) skill = Some (p @ f) \<and>
          length p \<le> 2 \<and> length f \<le> 1 \<and> (2 \<le> length p \<longrightarrow> f = []) \<and>
          (length p < 2 \<longrightarrow>
             fst (coursera_scrape env
                    (w\<lparr>sent := sent w @ [(ddg_url skill, user_agent env w)]\<rparr>) skill p) = p @ f) \<and>
          sent (snd (fetch_skill env (m, w) skill)) =
            sent w @ (ddg_url skill, user_agent env w) #
              (if length p < 2
               then [(coursera_url skill,
                      user_agent env (w\<lparr>sent := sent w @ [(ddg_url skill, user_agent env w)]\<rparr>))]
               else []) \<and>
          ((\<exists>ua. (coursera_url skill, ua) \<in>
                  set (drop (length (sent w)) (sent (snd (fetch_skill env (m, w) skill))))) \<longleftrightarrow>
           length p < 2)) \<and>
   (fst (fetch_courses_for_skills env w skills) s = Some recs \<longrightarrow>
      (\<exists>w' p f. p = fst (duckduckgo_scrape env w' s []) \<and> recs = p @ f \<and>
         length p \<le> 2 \<and> length f \<le> 1 \<and> (2 \<le> length p \<longrightarrow> f = []) \<and>
         (length p < 2 \<longrightarrow>
            fst (coursera_scrape env
                   (w'\<lparr>sent := sent w' @ [(ddg_url s, user_agent env w')]\<rparr>) s p) = p @ f)))"
proof (intro conjI impI)
  from fetch_skill_caps[of env w skill m] obtain p f where
    pf: "p = fst (duckduckgo_scrape env w skill [])"
      "fst (fetch_skill env (m, w) skill) skill = Some (p @ f)"
      "length p \<le> 2" "length f \<le> 1" "2 \<le> length p \<longrightarrow> f = []"
      "length p < 2 \<longrightarrow>
         fst (coursera_scrape env
                (w\<lparr>sent := sent w @ [(ddg_url skill, user_agent env w)]\<rparr>) skill p) = p @ f"
    by blast
  note s = fetch_skill_sent[of env m w skill, folded pf(1)]
  have q: "(\<exists>ua. (coursera_url skill, ua) \<in>
              set (drop (length (sent w)) (sent (snd (fetch_skill env (m, w) skill))))) \<longleftrightarrow>
           length p < 2"
    by (simp add: s ddg_url_neq_coursera_url[symmetric])
  from pf s q show "\<exists>p f. p = fst (duckduckgo_scrape env w skill []) \<and>
          fst (fetch_skill env (m, w) skill) skill = Some (p @ f) \<and>
          length p \<le> 2 \<and> length f \<le> 1 \<and> (2 \<le> length p \<longrightarrow> f = []) \<and>
          (length p < 2 \<longrightarrow>
             fst (coursera_scrape env
                    (w\<lparr>sent := sent w @ [(ddg_url skill, user_agent env w)]\<rparr>) skill p) = p @ f) \<and>
          sent (snd (fetch_skill env (m, w) skill)) =
            sent w @ (ddg_url skill, user_agent env w) #
              (if length p < 2
               then [(coursera_url skill,
                      user_agent env (w\<lparr>sent := sent w @ [(ddg_url skill, user_agent env w)]\<rparr>))]
               else []) \<and>
          ((\<exists>ua. (coursera_url skill, ua) \<in>
                  set (drop (length (sent w)) (sent (snd (fetch_skill env (m, w) skill))))) \<longleftrightarrow>
           length p < 2)"
    by blast
next
  assume a: "fst (fetch_courses_for_skills env w skills) s = Some recs"
  then have "s \<in> dom (fst (fetch_courses_for_skills env w skills))" by auto
  then have "s \<in> set (take 3 skills)" by (simp add: dom_fetch_courses_for_skills)
  from foldl_fetch_skill_entry[OF this, of env Map.empty w] obtain m0 w' where
    "fst (fetch_courses_for_skills env w skills) s = fst (fetch_skill env (m0, w') s) s"
    by (auto simp: fetch_courses_for_skills_def)
  with a have "fst (fetch_skill env (m0, w') s) s = Some recs" by simp
  with fetch_skill_caps[of env w' s m0]
  show "\<exists>w' p f. p = fst (duckduckgo_scrape env w' s []) \<and> recs = p @ f \<and>
         length p \<le> 2 \<and> length f \<le> 1 \<and> (2 \<le> length p \<longrightarrow> f = []) \<and>
         (length p < 2 \<longrightarrow>
            fst (coursera_scrape env
                   (w'\<lparr>sent := sent w' @ [(ddg_url s, user_agent env w')]\<rparr>) s p) = p @ f)"
    by auto
qed

theorem fetch_provider_caps_witness:
  "fst (fetch_skill env_demo (Map.empty, w0) ''Go'') ''Go'' =
     Some [\<lparr>title = ''Learn Go'', link = ''https://go.dev/learn/''\<rparr>,
           \<lparr>title = ''Go by Example'', link = ''https://gobyexample.com/''\<rparr>] \<and>
   map fst (sent (snd (fetch_skill env_demo (Map.empty, w0) ''Go''))) = [ddg_url ''Go''] \<and>
   fst (fetch_skill env_demo (Map.empty, w0) ''Rust'') ''Rust'' =
     Some [\<lparr>title = ''Course one'', link = ''https://www.coursera.org/learn/one''\<rparr>] \<and>
   map fst (sent (snd (fetch_skill env_demo (Map.empty, w0) ''Rust''))) =
     [ddg_url ''Rust'', coursera_url ''Rust'']"
proof -
  from fetch_provider_caps[of env_demo w0 "''Go''" Map.empty "[]" "[]" "[]"]
  obtain f where
    1: "fst (fetch_skill env_demo (Map.empty, w0) ''Go'') ''Go'' =
          Some (fst (duckduckgo_scrape env_demo w0 ''Go'' []) @ f)"
    and 2: "2 \<le> length (fst (duckduckgo_scrape env_demo w0 ''Go'' [])) \<longrightarrow> f = []"
    and 3: "sent (snd (fetch_skill env_demo (Map.empty, w0) ''Go'')) =
            sent w0 @ (ddg_url ''Go'', user_agent env_demo w0) #
              (if length (fst (duckduckgo_scrape env_demo w0 ''Go'' [])) < 2
               then [(coursera_url ''Go'',
                      user_agent env_demo
                        (w0\<lparr>sent := sent w0 @ [(ddg_url ''Go'', user_agent env_demo w0)]\<rparr>))]
               else [])"
    by blast
  from fetch_provider_caps[of env_demo w0 "''Rust''" Map.empty "[]" "[]" "[]"]
  have 4: "sent (snd (fetch_skill env_demo (Map.empty, w0) ''Rust'')) =
            sent w0 @ (ddg_url ''Rust'', user_agent env_demo w0) #
              (if length (fst (duckduckgo_scrape env_demo w0 ''Rust'' [])) < 2
               then [(coursera_url ''Rust'',
                      user_agent env_demo
                        (w0\<lparr>sent := sent w0 @ [(ddg_url ''Rust'', user_agent env_demo w0)]\<rparr>))]
               else [])"
    by blast
  have 5: "fst (fetch_skill env_demo (Map.empty, w0) ''Rust'') ''Rust'' =
     Some [\<lparr>title = ''Course one'', link = ''https://www.coursera.org/learn/one''\<rparr>]"
    by (simp add: fetch_skill_eq Let_def demo_rust demo_rust_fallback)
  from 2 have f: "f = []" by (simp add: demo_go)
  from 1 3 4 5 show ?thesis
    by (simp add: f demo_go demo_rust) (simp add: w0_def)
qed

text \<open>
  Claim C5, as amended. \<open>fetch_courses_for_skills\<close> processes the first
  \<open>min(3, length)\<close> entries and no other: the keys of the result are exactly those
  entries, the entries past the cap have no effect on the result or on the world, one
  second is slept per processed entry, and a string that is not among the first three
  entries is not a key. A string that occurs past the cap and also among the first
  three is a key, through its earlier occurrence; when the input has no repetition,
  every entry past the cap is absent.
\<close>

theorem fetch_cap:
  "dom (fst (fetch_courses_for_skills env w skills)) = set (take (min 3 (length skills)) skills) \<and>
   fetch_courses_for_skills env w skills = fetch_courses_for_skills env w (take 3 skills) \<and>
   slept (snd (fetch_courses_for_skills env w skills)) = slept w + min 3 (length skills) \<and>
   (s \<notin> set (take 3 skills) \<longrightarrow> fst (fetch_courses_for_skills env w skills) s = None) \<and>
   (distinct skills \<longrightarrow>
      (\<forall>s \<in> set (drop 3 skills). fst (fetch_courses_for_skills env w skills) s = None))"
proof (intro conjI impI ballI)
  show "dom (fst (fetch_courses_for_skills env w skills)) = set (take (min 3 (length skills)) skills)"
    by (simp add: dom_fetch_courses_for_skills min_def)
  show "fetch_courses_for_skills env w skills = fetch_courses_for_skills env w (take 3 skills)"
    by (simp add: fetch_courses_for_skills_def)
  show "slept (snd (fetch_courses_for_skills env w skills)) = slept w + min 3 (length skills)"
    by (simp add: fetch_courses_for_skills_def foldl_fetch_skill_slept min.commute)
next
  assume "s \<notin> set (take 3 skills)"
  then have "s \<notin> dom (fst (fetch_courses_for_skills env w skills))"
    by (simp only: dom_fetch_courses_for_skills not_False_eq_True)
  then show "fst (fetch_courses_for_skills env w skills) s = None" by auto
next
  fix x
  assume d: "distinct skills" and x: "x \<in> set (drop 3 skills)"
  from d have "distinct (take 3 skills @ drop 3 skills)" by simp
  then have "set (take 3 skills) \<inter> set (drop 3 skills) = {}"
    by (simp only: distinct_append)
  with x have "x \<notin> dom (fst (fetch_courses_for_skills env w skills))"
    by (auto simp: dom_fetch_courses_for_skills)
  then show "fst (fetch_courses_for_skills env w skills) x = None" by auto
qed

theorem fetch_cap_witness:
  "dom (fst (fetch_courses_for_skills env_down w0 [''AWS'', ''Go'', ''Kotlin'', ''Rust'', ''SQL''])) =
     set [''AWS'', ''Go'', ''Kotlin''] \<and>
   fst (fetch_courses_for_skills env_down w0 [''AWS'', ''Go'', ''Kotlin'', ''Rust'', ''SQL'']) ''Rust'' = None \<and>
   fst (fetch_courses_for_skills env_down w0 [''AWS'', ''Go'', ''Kotlin'', ''Rust'', ''SQL'']) ''SQL'' = None \<and>
   slept (snd (fetch_courses_for_skills env_down w0 [''AWS'', ''Go'', ''Kotlin'', ''Rust'', ''SQL''])) = 3"
proof -
  let ?sk = "[''AWS'', ''Go'', ''Kotlin'', ''Rust'', ''SQL'']"
  have d: "distinct ?sk" by simp
  have tk: "take (min 3 (length ?sk)) ?sk = [''AWS'', ''Go'', ''Kotlin'']" by simp
  have dr: "''Rust'' \<in> set (drop 3 ?sk)" "''SQL'' \<in> set (drop 3 ?sk)" by simp_all
  note t = fetch_cap[of env_down w0 ?sk "''Rust''"]
  have 1: "dom (fst (fetch_courses_for_skills env_down w0 ?sk)) = set [''AWS'', ''Go'', ''Kotlin'']"
    using t[THEN conjunct1] by (simp only: tk)
  note a = t[THEN conjunct2, THEN conjunct2, THEN conjunct2, THEN conjunct2, THEN mp, OF d]
  have 2: "fst (fetch_courses_for_skills env_down w0 ?sk) ''Rust'' = None"
    by (rule bspec[OF a dr(1)])
  have 3: "fst (fetch_courses_for_skills env_down w0 ?sk) ''SQL'' = None"
    by (rule bspec[OF a dr(2)])
  have 4: "slept (snd (fetch_courses_for_skills env_down w0 ?sk)) = 3"
    using t[THEN conjunct2, THEN conjunct2, THEN conjunct1] by (simp add: w0_def)
  from 1 2 3 4 show ?thesis by (intro conjI)
qed

theorem fetch_cap_counterexample:
  "[''Go'', ''Go'', ''Go'', ''Go'', ''Rust''] ! 3 = ''Go'' \<and>
   fst (fetch_courses_for_skills env_down w0 [''Go'', ''Go'', ''Go'', ''Go'', ''Rust'']) ''Go'' =
     Some [] \<and>
   dom (fst (fetch_courses_for_skills env_down w0 [''Go'', ''Go'', ''Go'', ''Go'', ''Rust''])) =
     {''Go''}"
proof -
  let ?sk = "[''Go'', ''Go'', ''Go'', ''Go'', ''Rust'']"
  have h: "\<forall>h u a. case requests_get env_down h u a of
             Inl e \<Rightarrow> True | Inr r \<Rightarrow> status_code r \<noteq> 200"
    by (simp add: env_down_def)
  have m: "''Go'' \<in> set (take 3 ?sk)" by simp
  have 1: "?sk ! 3 = ''Go''" by simp
  have 2: "fst (fetch_courses_for_skills env_down w0 ?sk) ''Go'' = Some []"
    by (rule fetch_all_fail[OF h m])
  have 3: "dom (fst (fetch_courses_for_skills env_down w0 ?sk)) = {''Go''}"
    unfolding dom_fetch_courses_for_skills by simp
  from 1 2 3 show ?thesis by (intro conjI)
qed

lemma broken_link_loop:
  "ddg_results env_broken_link
     [\<lparr>get_text = ''Learn Go'', href = Some ''https://go.dev/learn/''\<rparr>,
      \<lparr>get_text = ''Go course'', href = Some ''http://[go?uddg=x''\<rparr>] [] =
   ([\<lparr>title = ''Learn Go'', link = ''https://go.dev/learn/''\<rparr>], Some ValueError)"
  by (simp add: env_broken_link_def Let_def startswith_def)

lemma broken_link_primary:
  "fst (duckduckgo_scrape env_broken_link w ''Go'' []) =
     [\<lparr>title = ''Learn Go'', link = ''https://go.dev/learn/''\<rparr>]"
proof -
  have u: "startswith (ddg_url ''Go'') ''https://duckduckgo.com/''"
    by (simp add: ddg_url_eq startswith_def)
  have "fst (duckduckgo_scrape env_broken_link w ''Go'' []) =
        fst (ddg_results env_broken_link
          (take 2 [\<lparr>get_text = ''Learn Go'', href = Some ''https://go.dev/learn/''\<rparr>,
                   \<lparr>get_text = ''Go course'', href = Some ''http://[go?uddg=x''\<rparr>]) [])"
    using u by (simp add: duckduckgo_scrape_def safe_request_def Let_def env_broken_link_def)
  then show ?thesis by (simp only: take_Suc_Cons take_0 numeral_2_eq_2 broken_link_loop fst_conv)
qed

lemma broken_link_fallback: "fst (coursera_scrape env_broken_link w ''Go'' recs) = recs"
proof -
  have u: "\<not> startswith (coursera_url ''Go'') ''https://duckduckgo.com/''"
    by (simp add: coursera_url_def startswith_def)
  then show ?thesis
    by (simp add: coursera_scrape_def safe_request_def Let_def env_broken_link_def)
qed

text \<open>
  Claim C6, as amended. No failure of a provider leaves \<open>fetch_courses_for_skills\<close>: it
  returns a mapping whatever the network and the libraries do, and every processed
  skill is a key of it. A network error, a response whose status is not 200, or a
  failure to parse the response body contributes zero results for that provider. An
  exception raised while unwrapping the link of a search result ends the loop of the
  primary provider and keeps the results collected before it. A skill whose requests
  all fail is mapped to the empty list.
\<close>

theorem fetch_failures_swallowed:
  "((case requests_get env (sent w) (ddg_url skill) (user_agent env w) of
       Inl e \<Rightarrow> True | Inr r \<Rightarrow> status_code r \<noteq> 200 \<or> (\<exists>e. select_result_a env (resp_text r) = Inl e)) \<longrightarrow>
      fst (duckduckgo_scrape env w skill recs) = recs) \<and>
   ((case requests_get env (sent w) (coursera_url skill) (user_agent env w) of
       Inl e \<Rightarrow> True | Inr r \<Rightarrow> status_code r \<noteq> 200 \<or> (\<exists>e. select_search_card env (resp_text r) = Inl e)) \<longrightarrow>
      fst (coursera_scrape env w skill recs) = recs) \<and>
   (snd (ddg_results env ts recs) = None \<and> href t = Some l \<and> str_contains ''uddg='' l \<and>
    uddg_of env l = Inl e \<longrightarrow>
      ddg_results env (ts @ t # rest) recs = (fst (ddg_results env ts recs), Some e)) \<and>
   (\<exists>add. fst (ddg_results env ts recs) = recs @ add) \<and>
   dom (fst (fetch_courses_for_skills env w skills)) = set (take 3 skills) \<and>
   ((\<forall>h u a. case requests_get env h u a of Inl e \<Rightarrow> True | Inr r \<Rightarrow> status_code r \<noteq> 200) \<longrightarrow>
      (\<forall>s \<in> set (take 3 skills). fst (fetch_courses_for_skills env w skills) s = Some []))"
proof (intro conjI impI ballI)
  assume "case requests_get env (sent w) (ddg_url skill) (user_agent env w) of
       Inl e \<Rightarrow> True | Inr r \<Rightarrow> status_code r \<noteq> 200 \<or> (\<exists>e. select_result_a env (resp_text r) = Inl e)"
  then show "fst (duckduckgo_scrape env w skill recs) = recs"
    by (auto simp: duckduckgo_scrape_def safe_request_def Let_def split: sum.splits)
next
  assume "case requests_get env (sent w) (coursera_url skill) (user_agent env w) of
       Inl e \<Rightarrow> True | Inr r \<Rightarrow> status_code r \<noteq> 200 \<or> (\<exists>e. select_search_card env (resp_text r) = Inl e)"
  then show "fst (coursera_scrape env w skill recs) = recs"
    by (auto simp: coursera_scrape_def safe_request_def Let_def split: sum.splits)
next
  assume "snd (ddg_results env ts recs) = None \<and> href t = Some l \<and> str_contains ''uddg='' l \<and>
    uddg_of env l = Inl e"
  then show "ddg_results env (ts @ t # rest) recs = (fst (ddg_results env ts recs), Some e)"
    by (elim conjE) (rule ddg_results_raise)
next
  show "\<exists>add. fst (ddg_results env ts recs) = recs @ add"
    using ddg_results_extends[of env ts recs] by blast
next
  show "dom (fst (fetch_courses_for_skills env w skills)) = set (take 3 skills)"
    by (rule dom_fetch_courses_for_skills)
next
  fix s
  assume "\<forall>h u a. case requests_get env h u a of Inl e \<Rightarrow> True | Inr r \<Rightarrow> status_code r \<noteq> 200"
    and "s \<in> set (take 3 skills)"
  then show "fst (fetch_courses_for_skills env w skills) s = Some []"
    by (rule fetch_all_fail)
qed

theorem fetch_failures_swallowed_witness:
  "fst (fetch_courses_for_skills env_down w0 [''Go'']) ''Go'' = Some [] \<and>
   dom (fst (fetch_courses_for_skills env_down w0 [''Go''])) = set [''Go'']"
proof -
  have h: "\<forall>h u a. case requests_get env_down h u a of
             Inl e \<Rightarrow> True | Inr r \<Rightarrow> status_code r \<noteq> 200"
    by (simp add: env_down_def)
  have m: "''Go'' \<in> set (take 3 [''Go''])" by simp
  have tk: "take 3 [''Go''] = [''Go'']" by simp
  note t = fetch_failures_swallowed[where env = env_down and w = w0 and skills = "[''Go'']"]
  note a = t[THEN conjunct2, THEN conjunct2, THEN conjunct2, THEN conjunct2, THEN conjunct2,
      THEN mp, OF h]
  have 1: "fst (fetch_courses_for_skills env_down w0 [''Go'']) ''Go'' = Some []"
    by (rule bspec[OF a m])
  have 2: "dom (fst (fetch_courses_for_skills env_down w0 [''Go''])) = set [''Go'']"
    using t[THEN conjunct2, THEN conjunct2, THEN conjunct2, THEN conjunct2, THEN conjunct1]
    by (simp only: tk)
  from 1 2 show ?thesis ..
qed

theorem fetch_failures_swallowed_counterexample:
  "snd (ddg_results env_broken_link
          [\<lparr>get_text = ''Learn Go'', href = Some ''https://go.dev/learn/''\<rparr>,
           \<lparr>get_text = ''Go course'', href = Some ''http://[go?uddg=x''\<rparr>] []) =
     Some ValueError \<and>
   fst (duckduckgo_scrape env_broken_link w0 ''Go'' []) =
     [\<lparr>title = ''Learn Go'', link = ''https://go.dev/learn/''\<rparr>] \<and>
   fst (fetch_courses_for_skills env_broken_link w0 [''Go'']) ''Go'' =
     Some [\<lparr>title = ''Learn Go'', link = ''https://go.dev/learn/''\<rparr>]"
proof -
  have "fst (fetch_courses_for_skills env_broken_link w0 [''Go'']) ''Go'' =
     Some [\<lparr>title = ''Learn Go'', link = ''https://go.dev/learn/''\<rparr>]"
    by (simp add: fetch_courses_for_skills_def fetch_skill_eq Let_def broken_link_primary
        broken_link_fallback)
  moreover have "snd (ddg_results env_broken_link
          [\<lparr>get_text = ''Learn Go'', href = Some ''https://go.dev/learn/''\<rparr>,
           \<lparr>get_text = ''Go course'', href = Some ''http://[go?uddg=x''\<rparr>] []) =
     Some ValueError"
    by (simp only: broken_link_loop snd_conv)
  moreover note broken_link_primary[of w0]
  ultimately show ?thesis by (intro conjI)
qed

end
